theory Spec2Isabelle
  imports Complex_Main
begin

section \<open>Field mapping simulator (utils/aiMappingSimulator.ts)\<close>

text \<open>
  Strings are lists of characters, for field names whose code units are below 256.
  Confidence scores are JavaScript numbers in the source; every score the simulator produces is one of the literals 1.0, 0.95, 0.75 or a quotient
  of two string lengths, and the scores are only compared with one another and with 0, 0.5
  and 0.8. They are modelled as exact rationals: for names of fewer than 2^26 characters two
  such scores compare as doubles as they do as rationals.
\<close>

datatype mapping_status = Confirmed | Suggested | Manual

record FieldMapping =
  sourceField :: string
  targetField :: string
  confidence :: rat
  status :: mapping_status

text \<open>The table \<open>fieldSynonyms\<close>, in the order of its entries.\<close>

definition fieldSynonyms :: "(string \<times> string list) list" where
  "fieldSynonyms =
    [(''account_number'', [''account_num'', ''acct_number'', ''account_id'', ''acct_no'', ''account'']),
     (''customer_name'', [''client_name'', ''name'', ''customer'', ''client'', ''full_name'']),
     (''balance'', [''amount'', ''account_balance'', ''current_balance'', ''bal'']),
     (''transaction_date'', [''date'', ''trans_date'', ''transaction_dt'', ''txn_date'']),
     (''transaction_id'', [''trans_id'', ''txn_id'', ''transaction_number'', ''reference'']),
     (''branch_code'', [''branch'', ''branch_id'', ''location_code'', ''branch_number'']),
     (''email'', [''email_address'', ''contact_email'', ''e_mail'']),
     (''phone'', [''phone_number'', ''contact_number'', ''telephone'', ''mobile'']),
     (''address'', [''street_address'', ''location'', ''full_address'']),
     (''account_type'', [''type'', ''acct_type'', ''product_type''])]"

text \<open>
  A character is a code unit below 256. \<open>toLowerCase\<close> on these: the letters A to Z and
  the capital letters of Latin-1 (192 to 222 without the multiplication sign 215) move up
  by 32; every other character is kept.
\<close>

definition lowerChar :: "char \<Rightarrow> char" where
  "lowerChar c =
     (let n = (of_char c :: nat) in
      if (65 \<le> n \<and> n \<le> 90) \<or> (192 \<le> n \<and> n \<le> 222 \<and> n \<noteq> 215) then char_of (n + 32) else c)"

definition toLowerCase :: "string \<Rightarrow> string" where
  "toLowerCase s = map lowerChar s"

text \<open>
  The class \<open>[_\s-]\<close> of the regular expression: underscore, hyphen, and the white space
  characters (tab, line feed, vertical tab, form feed, carriage return, space, no-break
  space).
\<close>

definition isSeparator :: "char \<Rightarrow> bool" where
  "isSeparator c =
     (let n = (of_char c :: nat) in n = 95 \<or> n = 45 \<or> n = 32 \<or> (9 \<le> n \<and> n \<le> 13) \<or> n = 160)"

text \<open>\<open>s.replace(/[_\s-]/g, '')\<close>\<close>

definition stripSeparators :: "string \<Rightarrow> string" where
  "stripSeparators s = filter (\<lambda>c. \<not> isSeparator c) s"

text \<open>\<open>s.includes(sub)\<close>: \<open>sub\<close> occurs in \<open>s\<close> as a contiguous run.\<close>

fun startsWith :: "string \<Rightarrow> string \<Rightarrow> bool" where
  "startsWith s [] = True"
| "startsWith [] (p # ps) = False"
| "startsWith (c # cs) (p # ps) = (c = p \<and> startsWith cs ps)"

fun includesStr :: "string \<Rightarrow> string \<Rightarrow> bool" where
  "includesStr [] sub = (sub = [])"
| "includesStr (c # cs) sub = (startsWith (c # cs) sub \<or> includesStr cs sub)"

text \<open>
  The loop over \<open>Object.entries(fieldSynonyms)\<close>: it returns 0.95 at the first entry
  whose variants contain both normalised names, and falls through otherwise.
\<close>

fun synonymLoop :: "(string \<times> string list) list \<Rightarrow> string \<Rightarrow> string \<Rightarrow> bool" where
  "synonymLoop [] s1 s2 = False"
| "synonymLoop ((canonical, synonyms) # rest) s1 s2 =
     (let allVariants = canonical # synonyms in
      if list_ex (\<lambda>v. stripSeparators v = s1) allVariants \<and>
         list_ex (\<lambda>v. stripSeparators v = s2) allVariants
      then True
      else synonymLoop rest s1 s2)"

text \<open>The counting loop: the characters of \<open>shorter\<close> that occur in \<open>longer\<close>.\<close>

fun countMatches :: "string \<Rightarrow> string \<Rightarrow> nat" where
  "countMatches longer [] = 0"
| "countMatches longer (c # cs) =
     (if c \<in> set longer then 1 else 0) + countMatches longer cs"

definition calculateSimilarity :: "string \<Rightarrow> string \<Rightarrow> rat" where
  "calculateSimilarity str1 str2 =
     (let s1 = stripSeparators (toLowerCase str1);
          s2 = stripSeparators (toLowerCase str2)
      in if s1 = s2 then 1
         else if synonymLoop fieldSynonyms s1 s2 then 95 / 100
         else if includesStr s1 s2 \<or> includesStr s2 s1 then 75 / 100
         else
           let longer = (if length s1 > length s2 then s1 else s2);
               shorter = (if length s1 > length s2 then s2 else s1);
               matches = countMatches longer shorter
           in of_nat matches / of_nat (length longer))"

text \<open>
  The inner loop of \<open>generateAIMappings\<close> over the target fields; \<open>bestMatch\<close> is the
  pair of its \<open>field\<close> and its \<open>confidence\<close>.
\<close>

fun bestMatchLoop :: "string \<Rightarrow> string set \<Rightarrow> string list \<Rightarrow> string \<times> rat \<Rightarrow> string \<times> rat" where
  "bestMatchLoop source usedTargets [] bestMatch = bestMatch"
| "bestMatchLoop source usedTargets (target # rest) bestMatch =
     (if target \<in> usedTargets then bestMatchLoop source usedTargets rest bestMatch
      else
        let conf = calculateSimilarity source target in
        if conf > snd bestMatch
        then bestMatchLoop source usedTargets rest (target, conf)
        else bestMatchLoop source usedTargets rest bestMatch)"

text \<open>The outer loop over the source fields, with the set \<open>usedTargets\<close> and the array \<open>mappings\<close>.\<close>

fun mappingLoop ::
  "string list \<Rightarrow> string list \<Rightarrow> string set \<Rightarrow> FieldMapping list \<Rightarrow> FieldMapping list" where
  "mappingLoop [] targetFields usedTargets mappings = mappings"
| "mappingLoop (source # rest) targetFields usedTargets mappings =
     (let bestMatch = bestMatchLoop source usedTargets targetFields ('''', 0) in
      if snd bestMatch > 1 / 2
      then mappingLoop rest targetFields (insert (fst bestMatch) usedTargets)
             (mappings @
               [\<lparr>sourceField = source, targetField = fst bestMatch,
                 confidence = snd bestMatch,
                 status = (if snd bestMatch > 8 / 10 then Confirmed else Suggested)\<rparr>])
      else mappingLoop rest targetFields usedTargets mappings)"

definition generateAIMappings :: "string list \<Rightarrow> string list \<Rightarrow> FieldMapping list" where
  "generateAIMappings sourceFields targetFields = mappingLoop sourceFields targetFields {} []"

text \<open>What the claim asks of one returned mapping.\<close>

definition wellFormedMapping :: "FieldMapping \<Rightarrow> bool" where
  "wellFormedMapping m =
     (1 / 2 < confidence m \<and> confidence m \<le> 1 \<and>
      status m = (if confidence m > 8 / 10 then Confirmed else Suggested))"


section \<open>Merging two datasets (utils/aiMappingSimulator.ts)\<close>

text \<open>
  A row is a \<open>Record<string, any>\<close>, kept as the finite map from its own property names
  to their values. The values are primitive data of an arbitrary type \<open>'v\<close>, as the
  strings \<open>parseCSV\<close> stores: none is a function and none is an object.
\<close>

type_synonym 'v row = "string \<rightharpoonup> 'v"

datatype js_error = TypeError | RangeError

text \<open>
  \<open>row.hasOwnProperty(k)\<close>. The method is looked up on the row itself first: a row that
  owns a property named \<open>hasOwnProperty\<close> (a CSV column of that name gives one) shadows
  the method of \<open>Object.prototype\<close>, and calling its value, which is not a function,
  throws a TypeError. Otherwise the call tells whether the row owns \<open>k\<close>.
\<close>

definition hasOwnProperty :: "'v row \<Rightarrow> string \<Rightarrow> js_error + bool" where
  "hasOwnProperty row k =
     (if row ''hasOwnProperty'' \<noteq> None then Inl TypeError else Inr (row k \<noteq> None))"

text \<open>
  \<open>newRow[k] = v\<close> on an object created by \<open>{}\<close>: the own property \<open>k\<close> is created or
  overwritten, except for the name \<open>__proto__\<close>, which the setter of \<open>Object.prototype\<close>
  takes; it ignores a primitive value, and the row gets no property.
\<close>

definition assign :: "'v row \<Rightarrow> string \<Rightarrow> 'v \<Rightarrow> 'v row" where
  "assign newRow k v = (if k = ''__proto__'' then newRow else newRow(k \<mapsto> v))"

text \<open>
  The body of \<open>mappings.forEach\<close> inside the callback of \<open>sourceData.map\<close>: each
  mapping whose source field the row owns writes that value under the target field of
  \<open>newRow\<close>, later mappings overwriting earlier ones. An exception of
  \<open>row.hasOwnProperty\<close> ends the loop.
\<close>

fun forEachMapping :: "FieldMapping list \<Rightarrow> 'v row \<Rightarrow> 'v row \<Rightarrow> js_error + 'v row" where
  "forEachMapping [] row newRow = Inr newRow"
| "forEachMapping (mapping # rest) row newRow =
     (case hasOwnProperty row (sourceField mapping) of
        Inl e \<Rightarrow> Inl e
      | Inr owns \<Rightarrow>
          if owns
          then (case row (sourceField mapping) of
                  Some v \<Rightarrow> forEachMapping rest row (assign newRow (targetField mapping) v)
                | None \<Rightarrow> forEachMapping rest row newRow)
          else forEachMapping rest row newRow)"

text \<open>The callback \<open>row => { const newRow = {}; ...; return newRow; }\<close>.\<close>

definition transformRow :: "FieldMapping list \<Rightarrow> 'v row \<Rightarrow> js_error + 'v row" where
  "transformRow mappings row = forEachMapping mappings row Map.empty"

text \<open>
  The renaming of one row that owns no property named \<open>hasOwnProperty\<close>: a target field
  other than \<open>__proto__\<close> holds the value of the source field of the last mapping onto it
  whose source field the row owns; no other property exists.
\<close>

definition renamed :: "FieldMapping list \<Rightarrow> 'v row \<Rightarrow> 'v row" where
  "renamed ms row k =
     (case List.find (\<lambda>m. targetField m = k \<and> k \<noteq> ''__proto__'' \<and>
                          row (sourceField m) \<noteq> None) (rev ms) of
        Some m \<Rightarrow> row (sourceField m)
      | None \<Rightarrow> None)"

text \<open>
  Arrays and rows are objects with identity, and \<open>mergeDatasets\<close> allocates new ones and
  pushes onto an array, so the function is modelled over a store: arrays of row
  references and row objects, each under its reference, and the next unused reference.
\<close>

type_synonym ref = nat

record 'v store =
  arrays :: "ref \<rightharpoonup> ref list"
  rows :: "ref \<rightharpoonup> 'v row"
  nextRef :: ref

definition newArray :: "'v store \<Rightarrow> 'v store \<times> ref" where
  "newArray h = (h\<lparr>arrays := (arrays h)(nextRef h \<mapsto> []), nextRef := nextRef h + 1\<rparr>, nextRef h)"

definition newObject :: "'v row \<Rightarrow> 'v store \<Rightarrow> 'v store \<times> ref" where
  "newObject row h = (h\<lparr>rows := (rows h)(nextRef h \<mapsto> row), nextRef := nextRef h + 1\<rparr>, nextRef h)"

text \<open>Storing one more element at the end of an array, as \<open>Array.prototype.map\<close> fills its result.\<close>

definition appendItem :: "ref \<Rightarrow> ref \<Rightarrow> 'v store \<Rightarrow> js_error + 'v store" where
  "appendItem arr item h =
     (case arrays h arr of
        None \<Rightarrow> Inl TypeError
      | Some elems \<Rightarrow> Inr (h\<lparr>arrays := (arrays h)(arr \<mapsto> elems @ [item])\<rparr>))"

text \<open>
  \<open>arr.push(...items)\<close>: the spread passes every item as one argument of the call. An
  engine bounds the number of arguments of a call and throws a RangeError beyond it; the
  bound depends on the engine and its stack and is the parameter \<open>argumentLimit\<close>. Within
  the bound the items are appended to the array \<open>arr\<close> in place.
\<close>

definition push :: "nat \<Rightarrow> ref \<Rightarrow> ref list \<Rightarrow> 'v store \<Rightarrow> js_error + 'v store" where
  "push argumentLimit arr items h =
     (if argumentLimit < length items then Inl RangeError
      else case arrays h arr of
             None \<Rightarrow> Inl TypeError
           | Some elems \<Rightarrow> Inr (h\<lparr>arrays := (arrays h)(arr \<mapsto> elems @ items)\<rparr>))"

text \<open>
  \<open>sourceData.map(callback)\<close>: the loop over the elements of the source array. Each call
  of the callback reads one row and allocates its \<open>newRow\<close>; the result array \<open>out\<close>
  receives the reference. An exception of the callback ends the loop.
\<close>

fun mapLoop :: "FieldMapping list \<Rightarrow> ref list \<Rightarrow> ref \<Rightarrow> 'v store \<Rightarrow> js_error + 'v store" where
  "mapLoop mappings [] out h = Inr h"
| "mapLoop mappings (r # rest) out h =
     (case rows h r of
        None \<Rightarrow> Inl TypeError
      | Some row \<Rightarrow>
          (case transformRow mappings row of
             Inl e \<Rightarrow> Inl e
           | Inr transformed \<Rightarrow>
               (let (h1, newRow) = newObject transformed h in
                case appendItem out newRow h1 of
                  Inl e \<Rightarrow> Inl e
                | Inr h2 \<Rightarrow> mapLoop mappings rest out h2)))"

definition mergeDatasets ::
  "nat \<Rightarrow> ref \<Rightarrow> ref \<Rightarrow> FieldMapping list \<Rightarrow> 'v store \<Rightarrow> js_error + ('v store \<times> ref)" where
  "mergeDatasets argumentLimit sourceData targetData mappings h =
     (let (h1, mergedData) = newArray h in
      case arrays h1 sourceData of
        None \<Rightarrow> Inl TypeError
      | Some sourceRows \<Rightarrow>
          (let (h2, transformedSource) = newArray h1 in
           case mapLoop mappings sourceRows transformedSource h2 of
             Inl e \<Rightarrow> Inl e
           | Inr h3 \<Rightarrow>
               (case arrays h3 transformedSource of
                  None \<Rightarrow> Inl TypeError
                | Some transformed \<Rightarrow>
                    (case push argumentLimit mergedData transformed h3 of
                       Inl e \<Rightarrow> Inl e
                     | Inr h4 \<Rightarrow>
                         (case arrays h4 targetData of
                            None \<Rightarrow> Inl TypeError
                          | Some targetRows \<Rightarrow>
                              (case push argumentLimit mergedData targetRows h4 of
                                 Inl e \<Rightarrow> Inl e
                               | Inr h5 \<Rightarrow> Inr (h5, mergedData)))))))"

text \<open>
  A store is well formed when every reference in use is below \<open>nextRef\<close> and every
  element of an array is a row of the store. JavaScript keeps this for every heap: a
  reference never dangles, and the elements of a \<open>Record<string, any>[]\<close> are rows.
\<close>

definition wfStore :: "'v store \<Rightarrow> bool" where
  "wfStore h =
     ((\<forall>a \<in> dom (arrays h). a < nextRef h \<and> set (the (arrays h a)) \<subseteq> dom (rows h)) \<and>
      (\<forall>r \<in> dom (rows h). r < nextRef h))"

text \<open>A row of the store that owns no property named \<open>hasOwnProperty\<close>.\<close>

definition plainRow :: "'v row option \<Rightarrow> bool" where
  "plainRow r = (case r of None \<Rightarrow> False | Some row \<Rightarrow> row ''hasOwnProperty'' = None)"

text \<open>
  The store after \<open>parseCSV\<close> has read a source file with the header
  \<open>hasOwnProperty,bal\<close> and one data line \<open>x,45\<close>, and a target file with the header
  \<open>balance\<close> and one data line \<open>98\<close>: the source array under reference 0, the target
  array under reference 1.
\<close>

definition csvStore :: "string store" where
  "csvStore =
     \<lparr>arrays = [0 \<mapsto> [2], 1 \<mapsto> [3]],
      rows = [2 \<mapsto> [''hasOwnProperty'' \<mapsto> ''x'', ''bal'' \<mapsto> ''45''], 3 \<mapsto> [''balance'' \<mapsto> ''98'']],
      nextRef = 4\<rparr>"


section \<open>The chatbot bridge server (server/index.js)\<close>

text \<open>
  JSON values; \<open>undefined\<close> is \<open>None\<close> of \<open>json option\<close>. An object is the list of its
  properties.
\<close>

datatype json =
  JNull | JBool bool | JNum rat | JStr string | JArr "json list" | JObj "(string \<times> json) list"

type_synonym jsval = "json option"

text \<open>JavaScript truthiness, as \<open>!message\<close> and \<open>if (response.error)\<close> test it.\<close>

fun truthy :: "jsval \<Rightarrow> bool" where
  "truthy None = False"
| "truthy (Some JNull) = False"
| "truthy (Some (JBool b)) = b"
| "truthy (Some (JNum n)) = (n \<noteq> 0)"
| "truthy (Some (JStr s)) = (s \<noteq> [])"
| "truthy (Some (JArr xs)) = True"
| "truthy (Some (JObj ps)) = True"

text \<open>
  Reading one of the properties \<open>message\<close>, \<open>context\<close>, \<open>history\<close>, \<open>error\<close>, \<open>result\<close>:
  a TypeError on \<open>undefined\<close> and \<open>null\<close>, the property of an object, \<open>undefined\<close> on
  every other value.
\<close>

fun getProp :: "jsval \<Rightarrow> string \<Rightarrow> js_error + jsval" where
  "getProp None k = Inl TypeError"
| "getProp (Some JNull) k = Inl TypeError"
| "getProp (Some (JObj ps)) k = Inr (map_of ps k)"
| "getProp (Some v) k = Inr None"

text \<open>An object literal; \<open>res.json\<close> leaves out the properties that are \<open>undefined\<close>.\<close>

definition object :: "(string \<times> jsval) list \<Rightarrow> json" where
  "object ps = JObj (List.map_filter (\<lambda>(k, v). map_option (Pair k) v) ps)"

text \<open>
  A child process as the server sees it: its \<open>killed\<close> flag, the requests written to its
  standard input, and the number of \<open>data\<close> listeners attached to its standard output.
\<close>

record mcp_process =
  pid :: nat
  killed :: bool
  stdin :: "json list"
  listeners :: nat

datatype outcome = Resolved json | Rejected string

text \<open>
  \<open>sendToMCPServer(process, request)\<close>. The promise is settled by the first of two
  events: a chunk on standard output after which the collected text parses as JSON, or
  the timer, which is set to the literal 30000 milliseconds. The environment is the list
  of the chunks the process writes, each with the time in milliseconds since the call at
  which it arrives, and \<open>JSON.parse\<close>, a function \<open>parse\<close> that returns \<open>None\<close> where
  \<open>JSON.parse\<close> throws.
\<close>

definition timeoutMs :: nat where
  "timeoutMs = 30000"

fun onData :: "(string \<Rightarrow> json option) \<Rightarrow> string \<Rightarrow> (nat \<times> string) list \<Rightarrow> outcome" where
  "onData parse responseData [] = Rejected ''MCP Server timeout''"
| "onData parse responseData ((t, chunk) # rest) =
     (if timeoutMs \<le> t then Rejected ''MCP Server timeout''
      else
        (case parse (responseData @ chunk) of
           Some response \<Rightarrow> Resolved response
         | None \<Rightarrow> onData parse (responseData @ chunk) rest))"

text \<open>
  The process after the call: the request has been written to its standard input; the
  two listeners are removed when the promise resolves and stay attached when the timer
  rejects it. Nothing kills the process.
\<close>

definition sendToMCPServer ::
  "(string \<Rightarrow> json option) \<Rightarrow> (nat \<times> string) list \<Rightarrow> mcp_process \<Rightarrow> json \<Rightarrow> outcome \<times> mcp_process" where
  "sendToMCPServer parse chunks process request =
     (let settled = onData parse [] chunks;
          sent = process\<lparr>stdin := stdin process @ [request]\<rparr>
      in case settled of
           Resolved response \<Rightarrow> (settled, sent)
         | Rejected message \<Rightarrow> (settled, sent\<lparr>listeners := listeners sent + 2\<rparr>))"

text \<open>
  The server: the table \<open>mcpProcesses\<close>. What one request takes from the environment:
  the process a call of \<open>startMCPServer\<close> would spawn, \<open>Date.now()\<close>, the chunks the MCP
  process answers with, and \<open>JSON.parse\<close>.
\<close>

record server =
  mcpProcesses :: "string \<rightharpoonup> mcp_process"

record environment =
  spawnedProcess :: mcp_process
  dateNow :: nat
  stdoutChunks :: "(nat \<times> string) list"
  jsonParse :: "string \<Rightarrow> json option"

record http_response =
  statusCode :: nat
  payload :: jsval

text \<open>\<open>let mcpProcess = mcpProcesses.get('main'); if (!mcpProcess || mcpProcess.killed) ...\<close>\<close>

definition getOrCreateProcess :: "environment \<Rightarrow> server \<Rightarrow> mcp_process \<times> server" where
  "getOrCreateProcess env s =
     (case mcpProcesses s ''main'' of
        Some mcpProcess \<Rightarrow>
          if killed mcpProcess
          then (spawnedProcess env, s\<lparr>mcpProcesses := (mcpProcesses s)(''main'' \<mapsto> spawnedProcess env)\<rparr>)
          else (mcpProcess, s)
      | None \<Rightarrow> (spawnedProcess env, s\<lparr>mcpProcesses := (mcpProcesses s)(''main'' \<mapsto> spawnedProcess env)\<rparr>))"

text \<open>
  The handler of \<open>POST /api/chatbot\<close>, from the request body to the response and the
  server after it. The body is the value \<open>express.json()\<close> leaves in \<open>req.body\<close>: the
  parsed object or array, or, in the versions of the middleware that do not initialise
  it, \<open>undefined\<close> when no JSON body was parsed; destructuring \<open>undefined\<close> throws. The
  \<open>catch\<close> block answers 500 with the message of whatever was thrown.
\<close>

definition internalError :: "string \<Rightarrow> http_response" where
  "internalError details =
     \<lparr>statusCode = 500,
      payload = Some (object [(''error'', Some (JStr ''Internal server error'')),
                              (''details'', Some (JStr details))])\<rparr>"

text \<open>A fixed text stands for the message of the engine's TypeError.\<close>

definition typeErrorMessage :: string where
  "typeErrorMessage = ''TypeError''"

definition chatbotPost :: "environment \<Rightarrow> jsval \<Rightarrow> server \<Rightarrow> http_response \<times> server" where
  "chatbotPost env body s =
     (case getProp body ''message'' of
        Inl e \<Rightarrow> (internalError typeErrorMessage, s)
      | Inr message \<Rightarrow>
          let context = (case getProp body ''context'' of Inr (Some c) \<Rightarrow> c | _ \<Rightarrow> JObj []);
              history = (case getProp body ''history'' of Inr (Some h) \<Rightarrow> h | _ \<Rightarrow> JArr [])
          in if \<not> truthy message
             then (\<lparr>statusCode = 400,
                    payload = Some (object [(''error'', Some (JStr ''Message is required''))])\<rparr>, s)
             else
               let (mcpProcess, s1) = getOrCreateProcess env s;
                   mcpRequest = object
                     [(''jsonrpc'', Some (JStr ''2.0'')),
                      (''id'', Some (JNum (of_nat (dateNow env)))),
                      (''method'', Some (JStr ''chatbot/query'')),
                      (''params'', Some (object [(''message'', message), (''context'', Some context),
                                                 (''history'', Some history)]))];
                   (settled, process') =
                     sendToMCPServer (jsonParse env) (stdoutChunks env) mcpProcess mcpRequest;
                   s2 = s1\<lparr>mcpProcesses := (mcpProcesses s1)(''main'' \<mapsto> process')\<rparr>
               in case settled of
                    Rejected details \<Rightarrow> (internalError details, s2)
                  | Resolved response \<Rightarrow>
                      (case getProp (Some response) ''error'' of
                         Inl e \<Rightarrow> (internalError typeErrorMessage, s2)
                       | Inr err \<Rightarrow>
                           if truthy err
                           then (case getProp err ''message'' of
                                   Inl e \<Rightarrow> (internalError typeErrorMessage, s2)
                                 | Inr msg \<Rightarrow>
                                     (\<lparr>statusCode = 500,
                                       payload = Some (object [(''error'', msg)])\<rparr>, s2))
                           else (case getProp (Some response) ''result'' of
                                   Inl e \<Rightarrow> (internalError typeErrorMessage, s2)
                                 | Inr result \<Rightarrow> (\<lparr>statusCode = 200, payload = result\<rparr>, s2))))"

text \<open>The chunks that arrive before the timer fires.\<close>

definition inTime :: "(nat \<times> string) list \<Rightarrow> (nat \<times> string) list" where
  "inTime chunks = takeWhile (\<lambda>(t, chunk). t < timeoutMs) chunks"

text \<open>A parser that accepts only the text of the empty object, for concrete runs.\<close>

definition parseEmptyObject :: "string \<Rightarrow> json option" where
  "parseEmptyObject s = (if s = ''{}'' then Some (JObj []) else None)"


section \<open>The integration workflow of the web client (App.tsx, ConflictResolutionPanel.tsx)\<close>

datatype Step = Upload | Mapping | Conflicts | Results

datatype ProcessingStatus = Idle | Processing | Success | Error

text \<open>The interface \<open>DataConflict\<close> with its two unions of string literals.\<close>

datatype ConflictType = Duplicate | Mismatch | Format

datatype Severity = High | Medium | Low

record DataConflict =
  conflictId :: string
  rowNumber :: nat
  conflictField :: string
  sourceValue :: string
  targetValue :: string
  conflictType :: ConflictType
  severity :: Severity
  aiSuggestion :: string
  resolutionOptions :: "string list"

text \<open>
  A dataset is kept by what the workflow reads of it: the field names of its first row
  (\<open>getFieldNames\<close>) and the number of its rows.
\<close>

record dataset =
  fieldNames :: "string list"
  rowCount :: nat

definition emptyDataset :: dataset where
  "emptyDataset = \<lparr>fieldNames = [], rowCount = 0\<rparr>"

text \<open>\<open>generateMockBankData\<close>: five rows each, with these fields.\<close>

definition generateMockBankData :: "bool \<Rightarrow> dataset" where
  "generateMockBankData isSource =
     (if isSource
      then \<lparr>fieldNames = [''account_num'', ''client_name'', ''bal'', ''branch'', ''acct_type''],
            rowCount = 5\<rparr>
      else \<lparr>fieldNames = [''account_number'', ''customer_name'', ''balance'', ''branch_code'',
                           ''account_type''],
            rowCount = 5\<rparr>)"

text \<open>
  The state of the component \<open>App\<close> that the workflow reads or writes, the set
  \<open>resolvedConflicts\<close> of the conflict panel, and the callbacks that are waiting: the
  continuations of \<open>handleAnalyze\<close>, the timers of \<open>handleUseMockData\<close>, and the timers of
  \<open>handleMerge\<close>, each with the length of the merged data its closure will produce.
\<close>

record app =
  currentView :: string
  currentStep :: Step
  appStatus :: ProcessingStatus
  processingProgress :: nat
  uploadedFiles :: nat
  sourceData :: dataset
  targetData :: dataset
  mappings :: "FieldMapping list"
  mergedData :: nat
  resolvedConflicts :: "string set"
  pendingAnalyses :: nat
  pendingMockTimers :: nat
  pendingMergeTimers :: "nat list"

definition initialApp :: app where
  "initialApp =
     \<lparr>currentView = ''integration'', currentStep = Upload, appStatus = Idle,
      processingProgress = 0, uploadedFiles = 0, sourceData = emptyDataset,
      targetData = emptyDataset, mappings = [], mergedData = 0, resolvedConflicts = {},
      pendingAnalyses = 0, pendingMockTimers = 0, pendingMergeTimers = []\<rparr>"

text \<open>The handlers, each up to its first \<open>await\<close> or \<open>setTimeout\<close>.\<close>

definition handleAnalyze :: "app \<Rightarrow> app" where
  "handleAnalyze s =
     (if uploadedFiles s < 2 then s
      else s\<lparr>appStatus := Processing, currentStep := Mapping, processingProgress := 0,
             pendingAnalyses := pendingAnalyses s + 1\<rparr>)"

definition handleContinueToConflicts :: "app \<Rightarrow> app" where
  "handleContinueToConflicts s = s\<lparr>currentStep := Conflicts\<rparr>"

definition handleMerge :: "app \<Rightarrow> app" where
  "handleMerge s =
     s\<lparr>appStatus := Processing, processingProgress := 0,
       pendingMergeTimers :=
         pendingMergeTimers s @ [rowCount (sourceData s) + rowCount (targetData s)]\<rparr>"

definition handleUseMockData :: "app \<Rightarrow> app" where
  "handleUseMockData s =
     s\<lparr>sourceData := generateMockBankData True, targetData := generateMockBankData False,
       currentStep := Mapping, appStatus := Processing,
       pendingMockTimers := pendingMockTimers s + 1\<rparr>"

definition handleStartNew :: "app \<Rightarrow> app" where
  "handleStartNew s =
     s\<lparr>currentStep := Upload, sourceData := emptyDataset, targetData := emptyDataset,
       mergedData := 0, mappings := [], appStatus := Idle, currentView := ''integration''\<rparr>"

text \<open>
  What the user and the environment can do. A control can be used only while it is
  rendered and enabled; a callback can run only while it is waiting.
\<close>

datatype event =
    SelectView string
  | SetUploadedFiles nat
  | ClickAnalyze
  | AnalysisDone dataset dataset
  | AnalysisFailed
  | ClickLoadDemo
  | MockTimerFired
  | ChangeMappings "FieldMapping list"
  | ClickConfirmMappings
  | ClickResolve string
  | ClickAutoResolveAll
  | ClickBackToMappings
  | ClickProceedWithMerge
  | MergeTimerFired
  | ClickStartNewIntegration
  | ClickNewProject

fun react :: "DataConflict list \<Rightarrow> event \<Rightarrow> app \<Rightarrow> app option" where
  "react conflicts (SelectView v) s = Some (s\<lparr>currentView := v\<rparr>)"
| "react conflicts (SetUploadedFiles n) s =
     (if currentView s = ''integration'' \<and> currentStep s = Upload \<and> appStatus s \<noteq> Processing
      then Some (s\<lparr>uploadedFiles := n\<rparr>) else None)"
| "react conflicts ClickAnalyze s =
     (if currentView s = ''integration'' \<and> currentStep s = Upload \<and>
         \<not> (uploadedFiles s < 2 \<or> appStatus s = Processing)
      then Some (handleAnalyze s) else None)"
| "react conflicts (AnalysisDone src tgt) s =
     (if 0 < pendingAnalyses s
      then Some (s\<lparr>processingProgress := 100, sourceData := src, targetData := tgt,
                   mappings := generateAIMappings (fieldNames src) (fieldNames tgt),
                   appStatus := Success, pendingAnalyses := pendingAnalyses s - 1\<rparr>)
      else None)"
| "react conflicts AnalysisFailed s =
     (if 0 < pendingAnalyses s
      then Some (s\<lparr>appStatus := Error, pendingAnalyses := pendingAnalyses s - 1\<rparr>)
      else None)"
| "react conflicts ClickLoadDemo s =
     (if currentView s = ''integration'' \<and> currentStep s = Upload
      then Some (handleUseMockData s) else None)"
| "react conflicts MockTimerFired s =
     (if 0 < pendingMockTimers s
      then Some (s\<lparr>mappings := generateAIMappings (fieldNames (generateMockBankData True))
                                  (fieldNames (generateMockBankData False)),
                   appStatus := Success, pendingMockTimers := pendingMockTimers s - 1\<rparr>)
      else None)"
| "react conflicts (ChangeMappings ms) s =
     (if currentView s = ''integration'' \<and> currentStep s = Mapping \<and> mappings s \<noteq> []
      then Some (s\<lparr>mappings := ms\<rparr>) else None)"
| "react conflicts ClickConfirmMappings s =
     (if currentView s = ''integration'' \<and> currentStep s = Mapping \<and> mappings s \<noteq> []
      then Some (handleContinueToConflicts s) else None)"
| "react conflicts (ClickResolve c) s =
     (if currentView s = ''integration'' \<and> currentStep s = Conflicts \<and>
         c \<in> set (map conflictId conflicts) \<and> c \<notin> resolvedConflicts s
      then Some (s\<lparr>resolvedConflicts := insert c (resolvedConflicts s)\<rparr>) else None)"
| "react conflicts ClickAutoResolveAll s =
     (if currentView s = ''integration'' \<and> currentStep s = Conflicts \<and>
         card (resolvedConflicts s) < length conflicts
      then Some (handleMerge s) else None)"
| "react conflicts ClickBackToMappings s =
     (if currentView s = ''integration'' \<and> currentStep s = Conflicts
      then Some (s\<lparr>currentStep := Mapping\<rparr>) else None)"
| "react conflicts ClickProceedWithMerge s =
     (if currentView s = ''integration'' \<and> currentStep s = Conflicts
      then Some (handleMerge s) else None)"
| "react conflicts MergeTimerFired s =
     (case pendingMergeTimers s of
        [] \<Rightarrow> None
      | merged # rest \<Rightarrow>
          Some (s\<lparr>mergedData := merged, currentStep := Results, appStatus := Success,
                  processingProgress := 100, pendingMergeTimers := rest\<rparr>))"
| "react conflicts ClickStartNewIntegration s =
     (if currentView s = ''integration'' \<and> currentStep s = Results \<and> 0 < mergedData s
      then Some (handleStartNew s) else None)"
| "react conflicts ClickNewProject s =
     (if currentView s = ''projects'' then Some (handleStartNew s) else None)"

text \<open>
  The conflict panel is mounted only on the conflicts step of the integration view; its
  set \<open>resolvedConflicts\<close> starts empty at every mount.
\<close>

definition unmountPanel :: "app \<Rightarrow> app" where
  "unmountPanel s =
     (if currentView s = ''integration'' \<and> currentStep s = Conflicts then s
      else s\<lparr>resolvedConflicts := {}\<rparr>)"

definition appStep :: "DataConflict list \<Rightarrow> event \<Rightarrow> app \<Rightarrow> app option" where
  "appStep conflicts e s = map_option unmountPanel (react conflicts e s)"

text \<open>A run: the states after each event, the last state first; \<open>None\<close> when an event cannot happen.\<close>

fun run :: "DataConflict list \<Rightarrow> event list \<Rightarrow> app list \<Rightarrow> app list option" where
  "run conflicts [] trace = Some trace"
| "run conflicts (e # es) [] = None"
| "run conflicts (e # es) (s # trace) =
     (case appStep conflicts e s of
        None \<Rightarrow> None
      | Some s' \<Rightarrow> run conflicts es (s' # s # trace))"

text \<open>The order of the steps in the progress display.\<close>

fun stepRank :: "Step \<Rightarrow> nat" where
  "stepRank Upload = 0"
| "stepRank Mapping = 1"
| "stepRank Conflicts = 2"
| "stepRank Results = 3"






section \<open>The capability registry\<close>

text \<open>
  Modelled from the spec: the capability registry (\<open>register\<close>, \<open>deregister\<close>,
  \<open>discoverAgents\<close>, \<open>discoverTools\<close>, \<open>invokeTool\<close>, \<open>invokeCapability\<close>) is not in the
  sources, which only describe and call it. The definitions of this section follow
  sections 3, 4.1 and 7 of the spec. Parameters and results of tools are of arbitrary
  types \<open>'p\<close> and \<open>'r\<close>; a handler returns \<open>None\<close> where it raises.
\<close>

text \<open>
  Modelled from the spec: the closed set of capability tags of section 3 (the registry is
  not in the sources).
\<close>

datatype Capability =
  DataIngestion | SchemaAnalysis | ConflictDetection | SqlGeneration | MergeExecution | DataQuality

text \<open>
  Modelled from the spec: the errors of the registry and the router in the taxonomy of
  section 7 (the registry is not in the sources).
\<close>

datatype RegistryError =
  DuplicateAgentError | DuplicateToolError | NoProviderError | ValidationError | InvocationError

text \<open>
  Modelled from the spec: \<open>ToolDescriptor\<close> and \<open>AgentDescriptor\<close> of section 3 (the registry
  is not in the sources). The schema is the set of parameters it accepts.
\<close>

record ('p, 'r) ToolDescriptor =
  toolName :: string
  toolCapability :: Capability
  schema :: "'p \<Rightarrow> bool"
  handler :: "'p \<Rightarrow> 'r option"

record ('p, 'r) AgentDescriptor =
  agentId :: string
  agentType :: string
  capabilities :: "Capability set"
  tools :: "('p, 'r) ToolDescriptor list"

text \<open>
  Modelled from the spec: the state of the registry of section 4.1, which is not in the
  sources: the registered agents in the order of their registration, and the round-robin
  cursor of each capability.
\<close>

record ('p, 'r) Registry =
  agents :: "('p, 'r) AgentDescriptor list"
  cursors :: "Capability \<Rightarrow> nat"

text \<open>Modelled from the spec: the registry before any registration (not in the sources).\<close>

definition emptyRegistry :: "('p, 'r) Registry" where
  "emptyRegistry = \<lparr>agents = [], cursors = (\<lambda>c. 0)\<rparr>"

text \<open>
  Modelled from the spec: the tools of all registered agents (the registry is not in the
  sources).
\<close>

definition registeredTools :: "('p, 'r) Registry \<Rightarrow> ('p, 'r) ToolDescriptor list" where
  "registeredTools reg = concat (map tools (agents reg))"

text \<open>
  Modelled from the spec: \<open>register\<close> (not in the sources) fails with \<open>DuplicateAgentError\<close> if the id already
  exists, or \<open>DuplicateToolError\<close> if any tool name collides with an existing registration.
  The result is the error, if any, and the registry after the call.
\<close>

definition register ::
  "('p, 'r) AgentDescriptor \<Rightarrow> ('p, 'r) Registry \<Rightarrow> RegistryError option \<times> ('p, 'r) Registry" where
  "register descriptor reg =
     (if agentId descriptor \<in> set (map agentId (agents reg)) then (Some DuplicateAgentError, reg)
      else if list_ex (\<lambda>t. toolName t \<in> set (map toolName (registeredTools reg))) (tools descriptor)
      then (Some DuplicateToolError, reg)
      else (None, reg\<lparr>agents := agents reg @ [descriptor]\<rparr>))"

text \<open>
  Modelled from the spec: \<open>deregister\<close> (not in the sources) removes the agent and all its
  tools; no-op if absent.
\<close>

definition deregister :: "string \<Rightarrow> ('p, 'r) Registry \<Rightarrow> ('p, 'r) Registry" where
  "deregister ident reg = reg\<lparr>agents := filter (\<lambda>a. agentId a \<noteq> ident) (agents reg)\<rparr>"

text \<open>
  Modelled from the spec: \<open>discoverAgents\<close> (not in the sources) returns the agents claiming the capability, in
  insertion order; \<open>discoverTools\<close> the same at tool granularity.
\<close>

definition discoverAgents :: "Capability \<Rightarrow> ('p, 'r) Registry \<Rightarrow> ('p, 'r) AgentDescriptor list" where
  "discoverAgents capability reg = filter (\<lambda>a. capability \<in> capabilities a) (agents reg)"

text \<open>
  Modelled from the spec: \<open>discoverTools\<close> (not in the sources), the discovery at tool
  granularity.
\<close>

definition discoverTools :: "Capability \<Rightarrow> ('p, 'r) Registry \<Rightarrow> ('p, 'r) ToolDescriptor list" where
  "discoverTools capability reg = filter (\<lambda>t. toolCapability t = capability) (registeredTools reg)"

text \<open>
  Modelled from the spec: what \<open>invokeTool\<close> (not in the sources) does with the tool it
  has found: it validates the parameters against the schema of the tool
  (\<open>ValidationError\<close>), runs the handler and returns its result, or \<open>InvocationError\<close>
  when the handler raises.
\<close>

definition runTool :: "('p, 'r) ToolDescriptor \<Rightarrow> 'p \<Rightarrow> RegistryError + 'r" where
  "runTool tool params =
     (if \<not> schema tool params then Inl ValidationError
      else (case handler tool params of
              None \<Rightarrow> Inl InvocationError
            | Some result \<Rightarrow> Inr result))"

text \<open>
  Modelled from the spec: \<open>invokeTool\<close> (not in the sources) finds the tool registered
  under the name and runs it. The spec does not say what an unknown name gives; the model
  answers \<open>NoProviderError\<close>.
\<close>

definition invokeTool :: "string \<Rightarrow> 'p \<Rightarrow> ('p, 'r) Registry \<Rightarrow> RegistryError + 'r" where
  "invokeTool name params reg =
     (case List.find (\<lambda>t. toolName t = name) (registeredTools reg) of
        None \<Rightarrow> Inl NoProviderError
      | Some tool \<Rightarrow> runTool tool params)"

text \<open>
  Modelled from the spec: the round-robin selection of \<open>invokeCapability\<close> (not in the
  sources), scoped per capability, with the
  cursor kept across calls. It fails with \<open>NoProviderError\<close> when the discovery set is
  empty; otherwise it yields the position of the selected tool among the providers and
  advances the cursor of this capability, leaving the other cursors and the agents alone.
\<close>

definition selectProvider ::
  "Capability \<Rightarrow> ('p, 'r) Registry \<Rightarrow> (RegistryError + nat) \<times> ('p, 'r) Registry" where
  "selectProvider capability reg =
     (let providers = discoverTools capability reg in
      if providers = [] then (Inl NoProviderError, reg)
      else
        let i = cursors reg capability mod length providers in
        (Inr i, reg\<lparr>cursors := (cursors reg)(capability := (i + 1) mod length providers)\<rparr>))"

text \<open>
  Modelled from the spec: \<open>invokeCapability\<close> (not in the sources) selects a provider and
  delegates to \<open>invokeTool\<close>.
\<close>

definition invokeCapability ::
  "Capability \<Rightarrow> 'p \<Rightarrow> ('p, 'r) Registry \<Rightarrow> (RegistryError + 'r) \<times> ('p, 'r) Registry" where
  "invokeCapability capability params reg =
     (case selectProvider capability reg of
        (Inl e, reg') \<Rightarrow> (Inl e, reg')
      | (Inr i, reg') \<Rightarrow>
          (invokeTool (toolName (discoverTools capability reg ! i)) params reg', reg'))"

text \<open>
  Modelled from the spec: successive calls of \<open>invokeCapability\<close> (not in the sources),
  one call for each element of the parameter list, each on the registry the call before
  left: the results of the calls in order, and the registry after the last.
\<close>

fun invokeAll ::
  "Capability \<Rightarrow> 'p list \<Rightarrow> ('p, 'r) Registry \<Rightarrow> (RegistryError + 'r) list \<times> ('p, 'r) Registry" where
  "invokeAll capability [] reg = ([], reg)"
| "invokeAll capability (params # rest) reg =
     (let (result, reg') = invokeCapability capability params reg;
          (results, reg'') = invokeAll capability rest reg'
      in (result # results, reg''))"

text \<open>
  Modelled from the spec: the providers visited by these calls (not in the sources): the
  positions \<open>selectProvider\<close> yields in the calls, in order.
\<close>

fun visits :: "Capability \<Rightarrow> 'p list \<Rightarrow> ('p, 'r) Registry \<Rightarrow> nat list" where
  "visits capability [] reg = []"
| "visits capability (params # rest) reg =
     (case fst (selectProvider capability reg) of
        Inl e \<Rightarrow> visits capability rest (snd (invokeCapability capability params reg))
      | Inr i \<Rightarrow> i # visits capability rest (snd (invokeCapability capability params reg)))"

text \<open>
  Modelled from the spec: the invariant of section 3 that every tool of the registry has
  a unique name (the registry is not in the sources).
\<close>

definition uniqueToolNames :: "('p, 'r) Registry \<Rightarrow> bool" where
  "uniqueToolNames reg = distinct (map toolName (registeredTools reg))"

text \<open>A registry with one agent that exposes two schema-analysis tools, for concrete runs.\<close>

definition exampleAgent :: "(unit, nat) AgentDescriptor" where
  "exampleAgent =
     \<lparr>agentId = ''gemini_schema_1'', agentType = ''gemini_schema'',
      capabilities = {SchemaAnalysis},
      tools =
        [\<lparr>toolName = ''read_table_schema'', toolCapability = SchemaAnalysis,
          schema = (\<lambda>p. True), handler = (\<lambda>p. Some 1)\<rparr>,
         \<lparr>toolName = ''describe_columns'', toolCapability = SchemaAnalysis,
          schema = (\<lambda>p. True), handler = (\<lambda>p. Some 2)\<rparr>]\<rparr>"

definition exampleRegistry :: "(unit, nat) Registry" where
  "exampleRegistry = \<lparr>agents = [exampleAgent], cursors = (\<lambda>c. 0)\<rparr>"


section \<open>The resource allocation policy\<close>

text \<open>
  Modelled from the spec: the complexity levels and warehouse tiers the table of section
  4.3 names, and \<open>ResourceAllocationDecision\<close> of section 3 (the allocation policy is not in
  the sources).
\<close>

datatype Complexity = LowComplexity | MediumComplexity | HighComplexity

datatype WarehouseTier = SmallTier | MediumTier | XLargeTier

record ResourceAllocationDecision =
  schemaAgents :: nat
  mergeAgents :: nat
  warehouseTier :: WarehouseTier

text \<open>
  Modelled from the spec: the allocation policy (the resource manager of the master
  agent) is not in the sources. The definition is the lookup table of section 4.3 of the
  spec on row count and complexity; it is \<open>None\<close> where the table has no row. The table
  writes the row ranges as \<open>< 10K\<close>, 10K to 100K, 100K to 1M and \<open>> 1M\<close>: the first and the
  last put 10,000 in the second row and 1,000,000 in the third, and 100,000 is put in the
  third row as 10,000 is in the second.
\<close>

definition allocate :: "nat \<Rightarrow> Complexity \<Rightarrow> ResourceAllocationDecision option" where
  "allocate numRows complexity =
     (if 1000000 < numRows
      then Some \<lparr>schemaAgents = 3, mergeAgents = 10, warehouseTier = XLargeTier\<rparr>
      else if numRows < 10000 \<and> complexity = LowComplexity
      then Some \<lparr>schemaAgents = 1, mergeAgents = 1, warehouseTier = SmallTier\<rparr>
      else if 10000 \<le> numRows \<and> numRows < 100000 \<and> complexity = MediumComplexity
      then Some \<lparr>schemaAgents = 2, mergeAgents = 3, warehouseTier = MediumTier\<rparr>
      else if 100000 \<le> numRows \<and> numRows \<le> 1000000 \<and> complexity = HighComplexity
      then Some \<lparr>schemaAgents = 3, mergeAgents = 7, warehouseTier = XLargeTier\<rparr>
      else None)"

text \<open>
  Modelled from the spec: the order small, medium, x-large of the warehouse tiers, and the
  component-wise order of decisions the claim of monotonicity is about (neither is in the
  sources).
\<close>

fun tierRank :: "WarehouseTier \<Rightarrow> nat" where
  "tierRank SmallTier = 0"
| "tierRank MediumTier = 1"
| "tierRank XLargeTier = 2"

definition decisionLe :: "ResourceAllocationDecision \<Rightarrow> ResourceAllocationDecision \<Rightarrow> bool" where
  "decisionLe d1 d2 =
     (schemaAgents d1 \<le> schemaAgents d2 \<and> mergeAgents d1 \<le> mergeAgents d2 \<and>
      tierRank (warehouseTier d1) \<le> tierRank (warehouseTier d2))"


section \<open>Properties of the field mapping simulator\<close>

lemma countMatches_le: "countMatches longer shorter \<le> length shorter"
  by (induction shorter) auto

lemma ratio_le_one: "m \<le> n \<Longrightarrow> (of_nat m :: rat) / of_nat n \<le> 1"
  by (cases "n = 0") (simp_all add: divide_le_eq_1)

lemma calculateSimilarity_le_one: "calculateSimilarity str1 str2 \<le> 1"
proof -
  have "(of_nat (countMatches l s) :: rat) / of_nat (length l) \<le> 1"
    if "length s \<le> length l" for l s :: string
    using that countMatches_le [of l s] by (intro ratio_le_one) linarith
  then show ?thesis
    by (simp add: calculateSimilarity_def Let_def)
qed

lemma bestMatchLoop_result:
  "bestMatchLoop source usedTargets targets bestMatch = bestMatch \<or>
   (fst (bestMatchLoop source usedTargets targets bestMatch) \<in> set targets - usedTargets \<and>
    snd (bestMatchLoop source usedTargets targets bestMatch) =
      calculateSimilarity source (fst (bestMatchLoop source usedTargets targets bestMatch)))"
proof (induction targets arbitrary: bestMatch)
  case Nil
  then show ?case by simp
next
  case (Cons t ts)
  show ?case
  proof (cases "t \<in> usedTargets")
    case True
    with Cons.IH [of bestMatch] show ?thesis by auto
  next
    case False
    show ?thesis
    proof (cases "calculateSimilarity source t > snd bestMatch")
      case True
      with False Cons.IH [of "(t, calculateSimilarity source t)"] show ?thesis
        by (auto simp: Let_def)
    next
      case gt: False
      with False Cons.IH [of bestMatch] show ?thesis by (auto simp: Let_def)
    qed
  qed
qed

lemma bestMatchLoop_fresh:
  assumes "0 < snd (bestMatchLoop source usedTargets targets ([], 0))"
  shows "fst (bestMatchLoop source usedTargets targets ([], 0)) \<notin> usedTargets"
    and "snd (bestMatchLoop source usedTargets targets ([], 0)) \<le> 1"
  using assms bestMatchLoop_result [of source usedTargets targets "([], 0)"]
    calculateSimilarity_le_one [of source "fst (bestMatchLoop source usedTargets targets ([], 0))"]
  by auto

lemma mappingLoop_wellFormed:
  "list_all wellFormedMapping acc \<Longrightarrow>
   list_all wellFormedMapping (mappingLoop sources targets usedTargets acc)"
proof (induction sources arbitrary: usedTargets acc)
  case Nil
  then show ?case by simp
next
  case (Cons s ss)
  let ?b = "bestMatchLoop s usedTargets targets ([], 0)"
  show ?case
  proof (cases "snd ?b > 1 / 2")
    case True
    then have "0 < snd ?b" by simp
    then have "snd ?b \<le> 1" by (rule bestMatchLoop_fresh)
    with True have "wellFormedMapping
               \<lparr>sourceField = s, targetField = fst ?b, confidence = snd ?b,
                 status = (if snd ?b > 8 / 10 then Confirmed else Suggested)\<rparr>"
      by (simp add: wellFormedMapping_def)
    with Cons.prems have "list_all wellFormedMapping (acc @
               [\<lparr>sourceField = s, targetField = fst ?b, confidence = snd ?b,
                 status = (if snd ?b > 8 / 10 then Confirmed else Suggested)\<rparr>])"
      by simp
    from Cons.IH [OF this] True show ?thesis by (simp add: Let_def)
  next
    case False
    with Cons.IH [OF Cons.prems] show ?thesis by (simp add: Let_def)
  qed
qed

lemma mappingLoop_distinct:
  "distinct (map targetField acc) \<Longrightarrow> set (map targetField acc) \<subseteq> usedTargets \<Longrightarrow>
   distinct (map targetField (mappingLoop sources targets usedTargets acc))"
proof (induction sources arbitrary: usedTargets acc)
  case Nil
  then show ?case by simp
next
  case (Cons s ss)
  let ?b = "bestMatchLoop s usedTargets targets ([], 0)"
  show ?case
  proof (cases "snd ?b > 1 / 2")
    case True
    then have "0 < snd ?b" by simp
    then have fresh: "fst ?b \<notin> usedTargets" by (rule bestMatchLoop_fresh)
    let ?ms = "acc @
               [\<lparr>sourceField = s, targetField = fst ?b, confidence = snd ?b,
                 status = (if snd ?b > 8 / 10 then Confirmed else Suggested)\<rparr>]"
    from fresh Cons.prems have d: "distinct (map targetField ?ms)" by auto
    from Cons.prems have u: "set (map targetField ?ms) \<subseteq> insert (fst ?b) usedTargets" by auto
    from Cons.IH [OF d u] True show ?thesis by (simp add: Let_def)
  next
    case False
    with Cons.IH [OF Cons.prems] show ?thesis by (simp add: Let_def)
  qed
qed

text \<open>
  Claim C8. For all source and target field lists, every mapping returned by
  \<open>generateAIMappings\<close> has a confidence strictly above 0.5 and at most 1, its status is
  \<open>confirmed\<close> exactly when the confidence exceeds 0.8 and \<open>suggested\<close> otherwise, and no two
  returned acc have the same \<open>targetField\<close>.
\<close>

theorem generateAIMappings_sound:
  "(\<forall>m \<in> set (generateAIMappings sourceFields targetFields).
      1 / 2 < confidence m \<and> confidence m \<le> 1 \<and>
      (status m = Confirmed \<longleftrightarrow> confidence m > 8 / 10) \<and>
      (status m = Suggested \<longleftrightarrow> \<not> confidence m > 8 / 10)) \<and>
   distinct (map targetField (generateAIMappings sourceFields targetFields))"
proof -
  have "list_all wellFormedMapping (generateAIMappings sourceFields targetFields)"
    unfolding generateAIMappings_def by (rule mappingLoop_wellFormed) simp
  then have "\<forall>m \<in> set (generateAIMappings sourceFields targetFields).
      1 / 2 < confidence m \<and> confidence m \<le> 1 \<and>
      (status m = Confirmed \<longleftrightarrow> confidence m > 8 / 10) \<and>
      (status m = Suggested \<longleftrightarrow> \<not> confidence m > 8 / 10)"
    by (auto simp: list_all_iff wellFormedMapping_def)
  moreover have "distinct (map targetField (generateAIMappings sourceFields targetFields))"
    unfolding generateAIMappings_def by (rule mappingLoop_distinct) simp_all
  ultimately show ?thesis by blast
qed

text \<open>The run of the simulator on two source and two target names.\<close>

lemmas similarity_defs = calculateSimilarity_def toLowerCase_def stripSeparators_def lowerChar_def isSeparator_def fieldSynonyms_def

lemma generateAIMappings_example: "generateAIMappings [''cust id'', ''zip''] [''cust-id'', ''zipper''] =
   [\<lparr>sourceField = ''cust id'', targetField = ''cust-id'', confidence = 1, status = Confirmed\<rparr>,
    \<lparr>sourceField = ''zip'', targetField = ''zipper'', confidence = 3 / 4, status = Suggested\<rparr>]"
  by (simp add: generateAIMappings_def similarity_defs)

theorem generateAIMappings_sound_witness:
  "generateAIMappings [''cust id'', ''zip''] [''cust-id'', ''zipper''] =
     [\<lparr>sourceField = ''cust id'', targetField = ''cust-id'', confidence = 1, status = Confirmed\<rparr>,
      \<lparr>sourceField = ''zip'', targetField = ''zipper'', confidence = 3 / 4, status = Suggested\<rparr>] \<and>
   list_all (\<lambda>m. 1 / 2 < confidence m \<and> confidence m \<le> 1 \<and>
                (status m = Confirmed) = (confidence m > 8 / 10) \<and>
                (status m = Suggested) = (\<not> confidence m > 8 / 10))
     (generateAIMappings [''cust id'', ''zip''] [''cust-id'', ''zipper'']) \<and>
   distinct (map targetField (generateAIMappings [''cust id'', ''zip''] [''cust-id'', ''zipper'']))"
  using generateAIMappings_sound [of "[''cust id'', ''zip'']" "[''cust-id'', ''zipper'']"]
    generateAIMappings_example
  unfolding list_all_iff by blast

section \<open>Properties of the merge\<close>

lemma find_append_cases:
  "List.find P (xs @ ys) = (case List.find P xs of None \<Rightarrow> List.find P ys | Some x \<Rightarrow> Some x)"
  by (induction xs) auto

lemma forEachMapping_throws:
  "row ''hasOwnProperty'' \<noteq> None \<Longrightarrow> ms \<noteq> [] \<Longrightarrow> forEachMapping ms row newRow = Inl TypeError"
  by (cases ms) (simp_all add: hasOwnProperty_def)

lemma forEachMapping_lookup:
  assumes "row ''hasOwnProperty'' = None"
  shows "\<exists>result. forEachMapping ms row newRow = Inr result \<and>
           (\<forall>k. result k =
              (case List.find (\<lambda>m. targetField m = k \<and> k \<noteq> ''__proto__'' \<and>
                                   row (sourceField m) \<noteq> None) (rev ms) of
                 Some m \<Rightarrow> row (sourceField m)
               | None \<Rightarrow> newRow k))"
proof (induction ms arbitrary: newRow)
  case Nil
  then show ?case by simp
next
  case (Cons m ms)
  let ?P = "\<lambda>k m. targetField m = k \<and> k \<noteq> ''__proto__'' \<and> row (sourceField m) \<noteq> None"
  show ?case
  proof (cases "row (sourceField m)")
    case None
    then have "forEachMapping (m # ms) row newRow = forEachMapping ms row newRow"
      using assms by (simp add: hasOwnProperty_def)
    moreover from Cons.IH [of newRow] obtain result where
      r: "forEachMapping ms row newRow = Inr result"
      "\<forall>k. result k = (case List.find (?P k) (rev ms) of
                Some m' \<Rightarrow> row (sourceField m') | None \<Rightarrow> newRow k)"
      by blast
    moreover have "(case List.find (?P k) (rev (m # ms)) of
                Some m' \<Rightarrow> row (sourceField m') | None \<Rightarrow> newRow k) =
             (case List.find (?P k) (rev ms) of
                Some m' \<Rightarrow> row (sourceField m') | None \<Rightarrow> newRow k)" for k
      using None by (simp add: find_append_cases split: option.splits)
    ultimately show ?thesis by simp
  next
    case (Some v)
    let ?new = "assign newRow (targetField m) v"
    have "forEachMapping (m # ms) row newRow = forEachMapping ms row ?new"
      using Some assms by (simp add: hasOwnProperty_def)
    moreover from Cons.IH [of ?new] obtain result where
      r: "forEachMapping ms row ?new = Inr result"
      "\<forall>k. result k = (case List.find (?P k) (rev ms) of
                Some m' \<Rightarrow> row (sourceField m') | None \<Rightarrow> ?new k)"
      by blast
    moreover have "(case List.find (?P k) (rev ms) of
                Some m' \<Rightarrow> row (sourceField m') | None \<Rightarrow> ?new k) =
             (case List.find (?P k) (rev (m # ms)) of
                Some m' \<Rightarrow> row (sourceField m') | None \<Rightarrow> newRow k)" for k
      using Some by (simp add: find_append_cases assign_def split: option.splits)
    ultimately show ?thesis by simp
  qed
qed

lemma transformRow_renamed:
  assumes "row ''hasOwnProperty'' = None"
  shows "transformRow ms row = Inr (renamed ms row)"
proof -
  from forEachMapping_lookup [where row = row and ms = ms and newRow = Map.empty, OF assms] obtain result where
    r: "forEachMapping ms row Map.empty = Inr result"
    and k: "\<forall>k. result k =
              (case List.find (\<lambda>m. targetField m = k \<and> k \<noteq> ''__proto__'' \<and>
                                   row (sourceField m) \<noteq> None) (rev ms) of
                 Some m \<Rightarrow> row (sourceField m)
               | None \<Rightarrow> Map.empty k)"
    by blast
  from k have "result = renamed ms row" by (intro ext) (simp add: renamed_def)
  with r show ?thesis by (simp add: transformRow_def)
qed

lemma upt_alloc: "[n ..< n + length (r # rs)] = n # [n + 1 ..< n + 1 + length rs]"
proof -
  have "n < n + length (r # rs)" by simp
  then have "[n ..< n + length (r # rs)] = n # [Suc n ..< n + length (r # rs)]"
    by (rule upt_conv_Cons)
  moreover have "n + length (r # rs) = n + 1 + length rs" by simp
  moreover have "Suc n = n + 1" by simp
  ultimately show ?thesis by (simp only:)
qed

lemma mapLoop_spec:
  assumes "\<forall>r \<in> set rs. r < nextRef h \<and> plainRow (rows h r)"
    and "arrays h out = Some acc"
  shows "\<exists>h'. mapLoop ms rs out h = Inr h' \<and>
           nextRef h' = nextRef h + length rs \<and>
           arrays h' = (arrays h)(out \<mapsto> acc @ [nextRef h ..< nextRef h + length rs]) \<and>
           (\<forall>r < nextRef h. rows h' r = rows h r) \<and>
           map (rows h') [nextRef h ..< nextRef h + length rs] =
             map (\<lambda>r. map_option (renamed ms) (rows h r)) rs"
  using assms
proof (induction rs arbitrary: h acc)
  case Nil
  then show ?case by (simp add: fun_upd_idem)
next
  case (Cons r rs)
  from Cons.prems obtain row where row: "rows h r = Some row" and r: "r < nextRef h"
    and plain: "row ''hasOwnProperty'' = None"
    by (auto simp: plainRow_def split: option.splits)
  let ?n = "nextRef h"
  let ?h1 = "h\<lparr>rows := (rows h)(?n \<mapsto> renamed ms row), nextRef := ?n + 1\<rparr>"
  let ?h2 = "?h1\<lparr>arrays := (arrays ?h1)(out \<mapsto> acc @ [?n])\<rparr>"
  have step: "mapLoop ms (r # rs) out h = mapLoop ms rs out ?h2"
    using row Cons.prems(2) transformRow_renamed [where row = row and ms = ms, OF plain]
    by (simp add: newObject_def appendItem_def)
  have p1: "\<forall>r' \<in> set rs. r' < nextRef ?h2 \<and> plainRow (rows ?h2 r')"
    using Cons.prems(1) by auto
  have p2: "arrays ?h2 out = Some (acc @ [?n])" by simp
  from Cons.IH [OF p1 p2] obtain h' where
    h': "mapLoop ms rs out ?h2 = Inr h'"
    and nx: "nextRef h' = nextRef ?h2 + length rs"
    and ar: "arrays h' = (arrays ?h2)(out \<mapsto> (acc @ [?n]) @ [nextRef ?h2 ..< nextRef ?h2 + length rs])"
    and old: "\<forall>r < nextRef ?h2. rows h' r = rows ?h2 r"
    and new: "map (rows h') [nextRef ?h2 ..< nextRef ?h2 + length rs] =
             map (\<lambda>r. map_option (renamed ms) (rows ?h2 r)) rs"
    by blast
  have a: "nextRef h' = ?n + length (r # rs)" using nx by simp
  have b: "arrays h' = (arrays h)(out \<mapsto> acc @ [?n ..< ?n + length (r # rs)])"
    using ar unfolding upt_alloc by simp
  have c: "\<forall>r' < ?n. rows h' r' = rows h r'" using old by simp
  have d0: "rows h' ?n = Some (renamed ms row)" using old by simp
  have d1: "map (\<lambda>r. map_option (renamed ms) (rows ?h2 r)) rs =
            map (\<lambda>r. map_option (renamed ms) (rows h r)) rs"
    using Cons.prems(1) by auto
  have d: "map (rows h') [?n ..< ?n + length (r # rs)] =
             map (\<lambda>r. map_option (renamed ms) (rows h r)) (r # rs)"
    using new d0 d1 row unfolding upt_alloc by simp
  from step h' a b c d show ?case by metis
qed

lemma wfStore_array:
  assumes "wfStore h" and "arrays h a = Some rs"
  shows "a < nextRef h" and "\<forall>r \<in> set rs. r < nextRef h \<and> rows h r \<noteq> None"
  using assms unfolding wfStore_def by (force simp: dom_def)+

text \<open>
  What holds of the merge away from the three failures: on a well-formed store whose
  source rows own no property named \<open>hasOwnProperty\<close>, and with both arrays within the
  argument limit, \<open>mergeDatasets\<close> returns a new array of the renamed source rows followed
  by the target rows themselves, and leaves every array and row of the store as it was.
\<close>

lemma mergeDatasets_plain_rows:
  assumes wf: "wfStore h"
    and src: "arrays h srcArr = Some sourceRows"
    and tgt: "arrays h tgtArr = Some targetRows"
    and plain: "\<forall>r \<in> set sourceRows. plainRow (rows h r)"
    and lim: "length sourceRows \<le> limit" "length targetRows \<le> limit"
  shows "\<exists>h' merged newRows.
           mergeDatasets limit srcArr tgtArr ms h = Inr (h', merged) \<and>
           arrays h' merged = Some (newRows @ targetRows) \<and>
           length (newRows @ targetRows) = length sourceRows + length targetRows \<and>
           map (rows h') newRows = map (\<lambda>r. map_option (renamed ms) (rows h r)) sourceRows \<and>
           map (rows h') targetRows = map (rows h) targetRows \<and>
           (\<forall>a \<in> dom (arrays h). arrays h' a = arrays h a) \<and>
           (\<forall>r \<in> dom (rows h). rows h' r = rows h r)"
proof -
  let ?n = "nextRef h"
  let ?new = "[?n + 2 ..< ?n + 2 + length sourceRows]"
  let ?h1 = "h\<lparr>arrays := (arrays h)(?n \<mapsto> []), nextRef := ?n + 1\<rparr>"
  let ?h2 = "?h1\<lparr>arrays := (arrays ?h1)(?n + 1 \<mapsto> []), nextRef := ?n + 1 + 1\<rparr>"
  from wfStore_array [OF wf src] have s_lt: "srcArr < ?n"
    and s_rows: "\<forall>r \<in> set sourceRows. r < ?n \<and> rows h r \<noteq> None" by auto
  from wfStore_array [OF wf tgt] have t_lt: "tgtArr < ?n"
    and t_rows: "\<forall>r \<in> set targetRows. r < ?n \<and> rows h r \<noteq> None" by auto
  have p1: "\<forall>r \<in> set sourceRows. r < nextRef ?h2 \<and> plainRow (rows ?h2 r)"
    using s_rows plain by auto
  have p2: "arrays ?h2 (?n + 1) = Some []" by simp
  from mapLoop_spec [OF p1 p2, of ms] obtain h3 where
    h3: "mapLoop ms sourceRows (?n + 1) ?h2 = Inr h3"
    and ar3: "arrays h3 = (arrays ?h2)(?n + 1 \<mapsto> ?new)"
    and old3: "\<forall>r < ?n + 2. rows h3 r = rows ?h2 r"
    and new3: "map (rows h3) ?new =
                 map (\<lambda>r. map_option (renamed ms) (rows ?h2 r)) sourceRows"
    by auto
  let ?h4 = "h3\<lparr>arrays := (arrays h3)(?n \<mapsto> [] @ ?new)\<rparr>"
  let ?h5 = "?h4\<lparr>arrays := (arrays ?h4)(?n \<mapsto> ?new @ targetRows)\<rparr>"
  have len: "length ?new = length sourceRows"
    by (simp only: length_upt add_diff_cancel_left')
  have a1: "arrays ?h1 srcArr = Some sourceRows" using src s_lt by simp
  have a3: "arrays h3 (?n + 1) = Some ?new" using ar3 by simp
  have a3m: "arrays h3 ?n = Some []" using ar3 by simp
  have a4: "arrays ?h4 tgtArr = Some targetRows" using ar3 tgt t_lt by simp
  have run: "mergeDatasets limit srcArr tgtArr ms h = Inr (?h5, ?n)"
    unfolding mergeDatasets_def newArray_def
    using a1 h3 a3 a3m a4 lim len by (simp add: push_def)
  have r1: "arrays ?h5 ?n = Some (?new @ targetRows)" by simp
  from len have r2: "length (?new @ targetRows) = length sourceRows + length targetRows"
    by (simp only: length_append)
  have r3: "map (rows ?h5) ?new = map (\<lambda>r. map_option (renamed ms) (rows h r)) sourceRows"
    using new3 by simp
  have keep: "\<forall>r < ?n. rows ?h5 r = rows h r" using old3 by simp
  have r4: "map (rows ?h5) targetRows = map (rows h) targetRows"
    using t_rows keep by simp
  have r5: "\<forall>a \<in> dom (arrays h). arrays ?h5 a = arrays h a"
  proof
    fix a assume "a \<in> dom (arrays h)"
    then obtain rs where "arrays h a = Some rs" by auto
    from wfStore_array(1) [OF wf this] have "a < ?n" .
    then show "arrays ?h5 a = arrays h a" using ar3 by simp
  qed
  have r6: "\<forall>r \<in> dom (rows h). rows ?h5 r = rows h r"
    using wf keep unfolding wfStore_def by auto
  from run r1 r2 r3 r4 r5 r6 show ?thesis by blast
qed

text \<open>
  Claim C9. The claim has \<open>mergeDatasets\<close> return the merged list for every pair of
  datasets and every mapping list. On the datasets \<open>parseCSV\<close> reads from a source file
  with a column named \<open>hasOwnProperty\<close>, with one mapping, the call
  \<open>row.hasOwnProperty(mapping.sourceField)\<close> throws a TypeError and \<open>mergeDatasets\<close>
  returns nothing.
\<close>

theorem mergeDatasets_throws_on_hasOwnProperty_column:
  "mergeDatasets argumentLimit 0 1
     [\<lparr>sourceField = ''bal'', targetField = ''balance'', confidence = 95 / 100, status = Confirmed\<rparr>]
     csvStore = Inl TypeError"
  by (simp add: csvStore_def mergeDatasets_def newArray_def transformRow_def hasOwnProperty_def)

lemma csvStore_wellFormed: "wfStore csvStore"
  by (simp add: wfStore_def csvStore_def)

text \<open>
  The second failure: with more source rows than one call takes arguments,
  \<open>mergedData.push(...transformedSource)\<close> throws a RangeError.
\<close>

lemma mergeDatasets_spread_limit:
  assumes wf: "wfStore h" and src: "arrays h srcArr = Some sourceRows"
    and plain: "\<forall>r \<in> set sourceRows. plainRow (rows h r)"
    and lim: "limit < length sourceRows"
  shows "mergeDatasets limit srcArr tgtArr ms h = Inl RangeError"
proof -
  let ?n = "nextRef h"
  let ?new = "[?n + 2 ..< ?n + 2 + length sourceRows]"
  let ?h1 = "h\<lparr>arrays := (arrays h)(?n \<mapsto> []), nextRef := ?n + 1\<rparr>"
  let ?h2 = "?h1\<lparr>arrays := (arrays ?h1)(?n + 1 \<mapsto> []), nextRef := ?n + 1 + 1\<rparr>"
  from wfStore_array [OF wf src] have s_lt: "srcArr < ?n"
    and s_rows: "\<forall>r \<in> set sourceRows. r < ?n \<and> rows h r \<noteq> None" by auto
  have p1: "\<forall>r \<in> set sourceRows. r < nextRef ?h2 \<and> plainRow (rows ?h2 r)"
    using s_rows plain by auto
  have p2: "arrays ?h2 (?n + 1) = Some []" by simp
  from mapLoop_spec [OF p1 p2, of ms] obtain h3 where
    h3: "mapLoop ms sourceRows (?n + 1) ?h2 = Inr h3"
    and ar3: "arrays h3 = (arrays ?h2)(?n + 1 \<mapsto> ?new)"
    by auto
  have len: "length ?new = length sourceRows"
    by (simp only: length_upt add_diff_cancel_left')
  have a1: "arrays ?h1 srcArr = Some sourceRows" using src s_lt by simp
  have a3: "arrays h3 (?n + 1) = Some ?new" using ar3 by simp
  show ?thesis
    unfolding mergeDatasets_def newArray_def
    using a1 h3 a3 lim len by (simp add: push_def)
qed

section \<open>Properties of the chatbot bridge server\<close>

text \<open>
  Claim C10. For every POST request to \<open>/api/chatbot\<close> whose body has no \<open>message\<close> (the
  property reads as \<open>undefined\<close>), the server answers with status 400 and an \<open>error\<close>, and
  the table \<open>mcpProcesses\<close> is what it was before the request: no MCP process is started
  or replaced.
\<close>

theorem chatbotPost_missing_message:
  "getProp body ''message'' = Inr None \<Longrightarrow>
   chatbotPost env body s =
     (\<lparr>statusCode = 400, payload = Some (JObj [(''error'', JStr ''Message is required'')])\<rparr>, s)"
  by (simp add: chatbotPost_def object_def List.map_filter_simps)

theorem chatbotPost_missing_message_witness:
  "getProp (Some (JObj [(''context'', JObj [])])) ''message'' = Inr None \<and>
   chatbotPost \<lparr>spawnedProcess = \<lparr>pid = 7, killed = False, stdin = [], listeners = 0\<rparr>,
                 dateNow = 1, stdoutChunks = [(5, ''{}'')], jsonParse = parseEmptyObject\<rparr>
     (Some (JObj [(''context'', JObj [])])) \<lparr>mcpProcesses = Map.empty\<rparr> =
     (\<lparr>statusCode = 400, payload = Some (JObj [(''error'', JStr ''Message is required'')])\<rparr>,
      \<lparr>mcpProcesses = Map.empty\<rparr>)"
proof -
  have h: "getProp (Some (JObj [(''context'', JObj [])])) ''message'' = Inr None" by simp
  from h chatbotPost_missing_message [OF h] show ?thesis by blast
qed

text \<open>
  Where the middleware leaves \<open>req.body\<close> undefined, the destructuring throws inside the
  \<open>try\<close> block: the answer is 500, and the table \<open>mcpProcesses\<close> is again what it was.
\<close>

lemma chatbotPost_undefined_body:
  "chatbotPost env None s = (internalError typeErrorMessage, s)"
  by (simp add: chatbotPost_def)

lemma onData_rejected:
  "(onData parse responseData chunks = Rejected ''MCP Server timeout'') =
   (\<forall>k < length (inTime chunks).
      parse (responseData @ concat (map snd (take (Suc k) (inTime chunks)))) = None)"
proof (induction chunks arbitrary: responseData)
  case Nil
  then show ?case by (simp add: inTime_def)
next
  case (Cons c cs)
  obtain t chunk where c: "c = (t, chunk)" by (cases c)
  show ?case
  proof (cases "timeoutMs \<le> t")
    case True
    then show ?thesis by (simp add: c inTime_def)
  next
    case False
    then have it: "inTime ((t, chunk) # cs) = (t, chunk) # inTime cs"
      by (simp add: inTime_def)
    show ?thesis
    proof (cases "parse (responseData @ chunk)")
      case None
      with False show ?thesis
        using Cons.IH [of "responseData @ chunk"]
        by (simp add: c it All_less_Suc2)
    next
      case (Some r)
      with False show ?thesis by (simp add: c it All_less_Suc2)
    qed
  qed
qed

lemma onData_rejected_message:
  "onData parse responseData chunks = Rejected message \<Longrightarrow> message = ''MCP Server timeout''"
  by (induction chunks arbitrary: responseData) (auto split: option.splits if_splits)

lemma onData_settles:
  "(\<exists>response. onData parse responseData chunks = Resolved response) \<or>
   onData parse responseData chunks = Rejected ''MCP Server timeout''"
  using onData_rejected_message [of parse responseData chunks]
  by (cases "onData parse responseData chunks") auto

lemma chatbotPost_timeout:
  assumes "getProp body ''message'' = Inr message" and "truthy message"
    and "onData (jsonParse env) [] (stdoutChunks env) = Rejected ''MCP Server timeout''"
  shows "fst (chatbotPost env body s) = internalError ''MCP Server timeout''"
proof -
  have out: "fst (sendToMCPServer (jsonParse env) (stdoutChunks env) p r) =
               Rejected ''MCP Server timeout''" for p r
    using assms(3) by (simp add: sendToMCPServer_def Let_def)
  show ?thesis
    using assms(1,2)
    by (simp add: chatbotPost_def Let_def case_prod_beta out del: truthy.simps)
qed

text \<open>
  Claim C5, as the code has it. Each call of \<open>sendToMCPServer\<close> sets its own timer, and the
  delay is the constant 30000 ms: the outcome depends on the chunks that arrive and on
  nothing the caller passes. The call fails, its promise rejected with the error
  \<open>MCP Server timeout\<close>, exactly when the text collected from the chunks arriving before
  30000 ms never parses; it never stays unsettled, and the handler of \<open>/api/chatbot\<close>
  answers a rejected call with status 500. The process is not cancelled: it is not killed,
  and the request stays written to its standard input.
\<close>

theorem sendToMCPServer_timeout:
  "(fst (sendToMCPServer parse chunks process request) = Rejected ''MCP Server timeout'') =
     (\<forall>k < length (inTime chunks).
        parse (concat (map snd (take (Suc k) (inTime chunks)))) = None) \<and>
   ((\<exists>response. fst (sendToMCPServer parse chunks process request) = Resolved response) \<or>
    fst (sendToMCPServer parse chunks process request) = Rejected ''MCP Server timeout'') \<and>
   fst (sendToMCPServer parse chunks process request) =
     fst (sendToMCPServer parse chunks process' request') \<and>
   (getProp body ''message'' = Inr message \<and> truthy message \<and>
    fst (sendToMCPServer (jsonParse env) (stdoutChunks env) process request) =
      Rejected ''MCP Server timeout'' \<longrightarrow>
      fst (chatbotPost env body s) = internalError ''MCP Server timeout'' \<and>
      statusCode (fst (chatbotPost env body s)) = 500) \<and>
   killed (snd (sendToMCPServer parse chunks process request)) = killed process \<and>
   pid (snd (sendToMCPServer parse chunks process request)) = pid process \<and>
   stdin (snd (sendToMCPServer parse chunks process request)) = stdin process @ [request]"
proof -
  have out: "fst (sendToMCPServer parse chunks p r) = onData parse [] chunks"
    for parse chunks and p :: mcp_process and r
    by (simp add: sendToMCPServer_def Let_def split: outcome.splits)
  have e: "getProp body ''message'' = Inr message \<and> truthy message \<and>
    fst (sendToMCPServer (jsonParse env) (stdoutChunks env) process request) =
      Rejected ''MCP Server timeout'' \<longrightarrow>
      fst (chatbotPost env body s) = internalError ''MCP Server timeout'' \<and>
      statusCode (fst (chatbotPost env body s)) = 500"
    using chatbotPost_timeout [of body message env s] by (simp add: out internalError_def)
  have a: "(fst (sendToMCPServer parse chunks process request) = Rejected ''MCP Server timeout'') =
     (\<forall>k < length (inTime chunks).
        parse (concat (map snd (take (Suc k) (inTime chunks)))) = None)"
    using onData_rejected [of parse "[]" chunks] by (simp add: out)
  have b: "(\<exists>response. fst (sendToMCPServer parse chunks process request) = Resolved response) \<or>
    fst (sendToMCPServer parse chunks process request) = Rejected ''MCP Server timeout''"
    using onData_settles [of parse "[]" chunks] by (simp add: out)
  have c: "fst (sendToMCPServer parse chunks process request) =
     fst (sendToMCPServer parse chunks process' request')"
    by (simp add: out)
  have d: "killed (snd (sendToMCPServer parse chunks process request)) = killed process"
    "pid (snd (sendToMCPServer parse chunks process request)) = pid process"
    "stdin (snd (sendToMCPServer parse chunks process request)) = stdin process @ [request]"
    by (simp_all add: sendToMCPServer_def Let_def split: outcome.splits)
  from a b c d e show ?thesis by blast
qed

theorem sendToMCPServer_timeout_witness:
  "fst (sendToMCPServer parseEmptyObject [(10, ''{''), (30000, ''}'')]
         \<lparr>pid = 7, killed = False, stdin = [], listeners = 0\<rparr> (JObj [])) =
     Rejected ''MCP Server timeout'' \<and>
   killed (snd (sendToMCPServer parseEmptyObject [(10, ''{''), (30000, ''}'')]
         \<lparr>pid = 7, killed = False, stdin = [], listeners = 0\<rparr> (JObj []))) = False"
proof -
  have "\<forall>k < length (inTime [(10, ''{''), (30000, ''}'')]).
          parseEmptyObject (concat (map snd (take (Suc k) (inTime [(10, ''{''), (30000, ''}'')])))) = None"
    by (simp add: inTime_def timeoutMs_def parseEmptyObject_def)
  with sendToMCPServer_timeout [of parseEmptyObject "[(10, ''{''), (30000, ''}'')]"
      "\<lparr>pid = 7, killed = False, stdin = [], listeners = 0\<rparr>" "JObj []"]
  show ?thesis by simp
qed

text \<open>
  Claim C5 as stated asks for a timeout the caller can configure. A request that asks for
  60000 ms is rejected when the reply arrives after 30000 ms, and a request that asks for
  1000 ms is still answered by a reply that arrives after 29999 ms.
\<close>

theorem sendToMCPServer_timeout_not_configurable:
  "fst (sendToMCPServer parseEmptyObject [(30000, ''{}'')]
         \<lparr>pid = 7, killed = False, stdin = [], listeners = 0\<rparr>
         (JObj [(''timeout'', JNum 60000)])) = Rejected ''MCP Server timeout'' \<and>
   fst (sendToMCPServer parseEmptyObject [(29999, ''{}'')]
         \<lparr>pid = 7, killed = False, stdin = [], listeners = 0\<rparr>
         (JObj [(''timeout'', JNum 1000)])) = Resolved (JObj [])"
  by (simp add: sendToMCPServer_def timeoutMs_def parseEmptyObject_def)

section \<open>Properties of the integration workflow\<close>

lemma bestMatchLoop_mono:
  "snd bestMatch \<le> snd (bestMatchLoop source usedTargets targets bestMatch)"
proof (induction targets arbitrary: bestMatch)
  case Nil
  then show ?case by simp
next
  case (Cons t ts)
  show ?case
    using Cons.IH [of bestMatch] Cons.IH [of "(t, calculateSimilarity source t)"]
    by (auto simp: Let_def)
qed

lemma mappingLoop_prefix: "\<exists>rest. mappingLoop sources targets usedTargets acc = acc @ rest"
proof (induction sources arbitrary: usedTargets acc)
  case Nil
  then show ?case by simp
next
  case (Cons s ss)
  let ?b = "bestMatchLoop s usedTargets targets ([], 0)"
  let ?m = "\<lparr>sourceField = s, targetField = fst ?b, confidence = snd ?b,
              status = (if snd ?b > 8 / 10 then Confirmed else Suggested)\<rparr>"
  show ?case
  proof (cases "snd ?b > 1 / 2")
    case True
    from Cons.IH [of "insert (fst ?b) usedTargets" "acc @ [?m]"]
    obtain rest where "mappingLoop ss targets (insert (fst ?b) usedTargets) (acc @ [?m]) = (acc @ [?m]) @ rest"
      by blast
    with True show ?thesis by (simp add: Let_def)
  next
    case False
    with Cons.IH [of usedTargets acc] show ?thesis by (simp add: Let_def)
  qed
qed

lemma generateAIMappings_nonempty:
  assumes "1 / 2 < calculateSimilarity s t"
  shows "generateAIMappings (s # ss) (t # ts) \<noteq> []"
proof -
  let ?b = "bestMatchLoop s {} (t # ts) ([], 0)"
  let ?m = "\<lparr>sourceField = s, targetField = fst ?b, confidence = snd ?b,
              status = (if snd ?b > 8 / 10 then Confirmed else Suggested)\<rparr>"
  have "?b = bestMatchLoop s {} ts (t, calculateSimilarity s t)"
    using assms by (simp add: Let_def)
  then have "calculateSimilarity s t \<le> snd ?b"
    using bestMatchLoop_mono [of "(t, calculateSimilarity s t)" s "{}" ts] by simp
  with assms have big: "1 / 2 < snd ?b" by simp
  obtain rest where "mappingLoop ss (t # ts) (insert (fst ?b) {}) ([] @ [?m]) = ([] @ [?m]) @ rest"
    using mappingLoop_prefix by blast
  with big show ?thesis
    unfolding generateAIMappings_def by (simp add: Let_def del: bestMatchLoop.simps)
qed

lemma mock_mappings_nonempty:
  "generateAIMappings (fieldNames (generateMockBankData True))
     (fieldNames (generateMockBankData False)) \<noteq> []"
proof -
  have "calculateSimilarity ''account_num'' ''account_number'' = 95 / 100"
    by (simp add: similarity_defs)
  then have "1 / 2 < calculateSimilarity ''account_num'' ''account_number''" by simp
  then show ?thesis
    unfolding generateMockBankData_def by (simp add: generateAIMappings_nonempty)
qed

lemmas app_defs = appStep_def unmountPanel_def handleAnalyze_def handleContinueToConflicts_def
  handleMerge_def handleUseMockData_def handleStartNew_def initialApp_def

lemma stepRank_le: "stepRank x \<le> 3"
  by (cases x) simp_all

text \<open>
  Claim C2, as the code has it. Every event of the workflow moves the step forward along
  upload, mapping, conflicts, results, or leaves it where it is, with two exceptions the
  client provides on purpose: \<open>Back to Mappings\<close> takes the conflicts step back to the
  mapping step, and \<open>Start New Integration\<close> and \<open>New Project\<close> take any step back to the
  upload step.
\<close>

theorem steps_forward_unless_backward:
  "appStep conflicts e s = Some s' \<Longrightarrow>
   (if e = ClickBackToMappings then currentStep s = Conflicts \<and> currentStep s' = Mapping
    else if e = ClickStartNewIntegration \<or> e = ClickNewProject then currentStep s' = Upload
    else stepRank (currentStep s) \<le> stepRank (currentStep s'))"
  by (cases e) (auto simp: app_defs stepRank_le split: if_splits list.splits)


theorem steps_forward_unless_backward_witness:
  "appStep [] ClickLoadDemo initialApp = Some (handleUseMockData initialApp) \<and>
   stepRank (currentStep initialApp) \<le> stepRank (currentStep (handleUseMockData initialApp))"
proof -
  have h: "appStep [] ClickLoadDemo initialApp = Some (handleUseMockData initialApp)"
    by (simp add: app_defs)
  from steps_forward_unless_backward [OF h] h show ?thesis by simp
qed


text \<open>
  Claim C2 as stated has no operation return the workflow to an earlier state. The run
  that loads the demo data, confirms the mappings and then presses \<open>Back to Mappings\<close> is
  on the conflicts step and then on the mapping step again.
\<close>

theorem back_to_mappings_trace:
  "map_option (map currentStep)
     (run [] [ClickLoadDemo, MockTimerFired, ClickConfirmMappings, ClickBackToMappings] [initialApp]) =
   Some [Mapping, Conflicts, Mapping, Mapping, Upload]"
  by (simp add: app_defs mock_mappings_nonempty)





section \<open>Properties of the capability registry\<close>

lemma mod_below_twice:
  fixes x m :: nat
  assumes "x < 2 * m"
  shows "x mod m = (if x < m then x else x - m)"
proof (cases "x < m")
  case True
  then show ?thesis by simp
next
  case False
  then have "x mod m = (x - m) mod m" by (simp add: le_mod_geq)
  moreover from assms False have "x - m < m" by arith
  ultimately show ?thesis using False by simp
qed

lemma hit_iff:
  fixes c n m j :: nat
  assumes "j < m"
  shows "((c + n) mod m = j) = (n mod m = (j + m - c mod m) mod m)"
proof -
  let ?c = "c mod m" and ?r = "n mod m"
  from assms have m: "0 < m" by simp
  then have c: "?c < m" and r: "?r < m" by simp_all
  have "(c + n) mod m = (?c + ?r) mod m" by (simp add: mod_add_eq)
  also have "\<dots> = (if ?c + ?r < m then ?c + ?r else ?c + ?r - m)"
    using c r by (intro mod_below_twice) arith
  finally have A: "(c + n) mod m = (if ?c + ?r < m then ?c + ?r else ?c + ?r - m)" .
  have B: "(j + m - ?c) mod m = (if j + m - ?c < m then j + m - ?c else j + m - ?c - m)"
    using c assms by (intro mod_below_twice) arith
  have "((if ?c + ?r < m then ?c + ?r else ?c + ?r - m) = j) =
        (?r = (if j + m - ?c < m then j + m - ?c else j + m - ?c - m))"
    using c r assms by (cases "?c + ?r < m"; cases "j + m - ?c < m"; simp; arith)
  then show ?thesis unfolding A B .
qed

lemma count_round_robin:
  fixes c m j :: nat
  assumes "j < m"
  shows "count_list (map (\<lambda>k. (c + k) mod m) [0 ..< n]) j =
           n div m + (if (j + m - c mod m) mod m < n mod m then 1 else 0)"
proof (induction n)
  case 0
  then show ?case by simp
next
  case (Suc n)
  let ?d = "(j + m - c mod m) mod m"
  from assms have m: "0 < m" by simp
  then have d: "?d < m" by simp
  have "count_list (map (\<lambda>k. (c + k) mod m) [0 ..< Suc n]) j =
          count_list (map (\<lambda>k. (c + k) mod m) [0 ..< n]) j + (if (c + n) mod m = j then 1 else 0)"
    by simp
  also have "\<dots> = n div m + (if ?d < n mod m then 1 else 0) + (if n mod m = ?d then 1 else 0)"
    by (simp add: Suc.IH hit_iff [OF assms])
  also have "\<dots> = Suc n div m + (if ?d < Suc n mod m then 1 else 0)"
  proof (cases "Suc (n mod m) = m")
    case True
    then have s: "Suc n mod m = 0" "Suc n div m = Suc (n div m)"
      by (simp_all add: mod_Suc div_Suc)
    from True d have "?d \<le> n mod m" by arith
    then have "(if ?d < n mod m then 1 else 0) + (if n mod m = ?d then 1 else 0) = (1::nat)"
      by (cases "?d < n mod m") auto
    then show ?thesis unfolding s by simp
  next
    case False
    then have "Suc n mod m = Suc (n mod m)" "Suc n div m = n div m"
      by (simp_all add: mod_Suc div_Suc)
    then show ?thesis by auto
  qed
  finally show ?case .
qed

lemma count_round_robin_bounds:
  fixes c m j :: nat
  assumes "j < m"
  shows "n div m \<le> count_list (map (\<lambda>k. (c + k) mod m) [0 ..< n]) j"
    and "count_list (map (\<lambda>k. (c + k) mod m) [0 ..< n]) j \<le> n div m + 1"
  by (simp_all add: count_round_robin [OF assms])

lemma selectProvider_agents:
  "agents (snd (selectProvider capability reg)) = agents reg"
  by (simp add: selectProvider_def Let_def)

lemma selectProvider_discoverTools:
  "discoverTools c (snd (selectProvider capability reg)) = discoverTools c reg"
  by (simp add: selectProvider_def Let_def discoverTools_def registeredTools_def)

lemma invokeCapability_registry:
  "snd (invokeCapability capability params reg) = snd (selectProvider capability reg)"
  by (simp add: invokeCapability_def split: prod.splits sum.splits)

lemma map_upt_Suc: "map f [0 ..< Suc n] = f 0 # map (\<lambda>k. f (Suc k)) [0 ..< n]"
  by (simp only: upt_conv_Cons [OF zero_less_Suc] list.map map_Suc_upt [symmetric] map_map comp_def)

lemma visits_round_robin:
  assumes "discoverTools capability reg \<noteq> []"
  shows "visits capability ps reg =
           map (\<lambda>k. (cursors reg capability + k) mod length (discoverTools capability reg))
             [0 ..< length ps]"
  using assms
proof (induction ps arbitrary: reg)
  case Nil
  then show ?case by simp
next
  case (Cons p ps)
  let ?m = "length (discoverTools capability reg)"
  let ?i = "cursors reg capability mod ?m"
  let ?reg' = "snd (selectProvider capability reg)"
  have sel: "fst (selectProvider capability reg) = Inr ?i"
    and cur: "cursors ?reg' capability = (?i + 1) mod ?m"
    using Cons.prems by (simp_all add: selectProvider_def Let_def)
  have tools': "discoverTools capability ?reg' = discoverTools capability reg"
    by (rule selectProvider_discoverTools)
  with Cons.prems have ne: "discoverTools capability ?reg' \<noteq> []" by simp
  have "visits capability (p # ps) reg = ?i # visits capability ps ?reg'"
    by (simp add: sel invokeCapability_registry)
  also have "visits capability ps ?reg' =
      map (\<lambda>k. ((?i + 1) mod ?m + k) mod ?m) [0 ..< length ps]"
    using Cons.IH [OF ne] by (simp add: tools' cur)
  also have "\<dots> = map (\<lambda>k. (cursors reg capability + Suc k) mod ?m) [0 ..< length ps]"
    by (simp add: mod_simps)
  finally show ?case
    by (simp only: length_Cons map_upt_Suc) simp
qed

lemma find_unique_name:
  "distinct (map toolName ts) \<Longrightarrow> t \<in> set ts \<Longrightarrow>
   List.find (\<lambda>t'. toolName t' = toolName t) ts = Some t"
proof (induction ts)
  case Nil
  then show ?case by simp
next
  case (Cons a ts)
  show ?case
  proof (cases "toolName a = toolName t")
    case True
    have "t = a"
    proof (rule ccontr)
      assume "t \<noteq> a"
      with Cons.prems(2) have "t \<in> set ts" by simp
      then have "toolName t \<in> set (map toolName ts)" by simp
      with True Cons.prems(1) show False by simp
    qed
    with True show ?thesis by simp
  next
    case False
    with Cons.prems have "t \<in> set ts" "distinct (map toolName ts)" by auto
    with Cons.IH False show ?thesis by simp
  qed
qed

lemma selectProvider_registeredTools:
  "registeredTools (snd (selectProvider capability reg)) = registeredTools reg"
  by (simp add: registeredTools_def selectProvider_agents)

lemma selectProvider_uniqueToolNames:
  "uniqueToolNames (snd (selectProvider capability reg)) = uniqueToolNames reg"
  by (simp add: uniqueToolNames_def selectProvider_registeredTools)

lemma invokeCapability_runs_selected:
  assumes u: "uniqueToolNames reg" and ne: "discoverTools capability reg \<noteq> []"
  shows "fst (invokeCapability capability params reg) =
           runTool (discoverTools capability reg !
                      (cursors reg capability mod length (discoverTools capability reg))) params"
proof -
  let ?ts = "discoverTools capability reg"
  let ?i = "cursors reg capability mod length ?ts"
  from ne have "?i < length ?ts" by simp
  then have "?ts ! ?i \<in> set ?ts" by (rule nth_mem)
  then have mem: "?ts ! ?i \<in> set (registeredTools reg)" by (simp add: discoverTools_def)
  obtain reg' where sel: "selectProvider capability reg = (Inr ?i, reg')"
    using ne by (simp add: selectProvider_def Let_def)
  then have "reg' = snd (selectProvider capability reg)" by simp
  then have tools': "registeredTools reg' = registeredTools reg"
    by (simp add: selectProvider_registeredTools)
  have "List.find (\<lambda>t'. toolName t' = toolName (?ts ! ?i)) (registeredTools reg') = Some (?ts ! ?i)"
    unfolding tools' using u mem unfolding uniqueToolNames_def by (rule find_unique_name)
  then have "invokeTool (toolName (?ts ! ?i)) params reg' = runTool (?ts ! ?i) params"
    by (simp add: invokeTool_def)
  then show ?thesis
    unfolding invokeCapability_def by (simp add: sel)
qed

lemma invokeAll_runs_visited:
  assumes "uniqueToolNames reg" and "discoverTools capability reg \<noteq> []"
  shows "fst (invokeAll capability ps reg) =
           map (\<lambda>(i, params). runTool (discoverTools capability reg ! i) params)
             (zip (visits capability ps reg) ps)"
  using assms
proof (induction ps arbitrary: reg)
  case Nil
  then show ?case by simp
next
  case (Cons p ps)
  let ?ts = "discoverTools capability reg"
  let ?i = "cursors reg capability mod length ?ts"
  let ?reg' = "snd (selectProvider capability reg)"
  have sel: "fst (selectProvider capability reg) = Inr ?i"
    using Cons.prems(2) by (simp add: selectProvider_def Let_def)
  have reg': "snd (invokeCapability capability p reg) = ?reg'"
    by (rule invokeCapability_registry)
  have u': "uniqueToolNames ?reg'"
    using Cons.prems(1) by (simp add: selectProvider_uniqueToolNames)
  have ts': "discoverTools capability ?reg' = ?ts"
    by (rule selectProvider_discoverTools)
  with Cons.prems(2) have ne': "discoverTools capability ?reg' \<noteq> []" by simp
  have head: "fst (invokeCapability capability p reg) = runTool (?ts ! ?i) p"
    by (rule invokeCapability_runs_selected [OF Cons.prems])
  have "fst (invokeAll capability (p # ps) reg) =
          fst (invokeCapability capability p reg) # fst (invokeAll capability ps ?reg')"
    by (simp add: case_prod_beta reg')
  also have "\<dots> = runTool (?ts ! ?i) p #
      map (\<lambda>(i, params). runTool (?ts ! i) params) (zip (visits capability ps ?reg') ps)"
    using Cons.IH [OF u' ne'] by (simp add: head ts')
  also have "\<dots> = map (\<lambda>(i, params). runTool (?ts ! i) params)
                      (zip (visits capability (p # ps) reg) (p # ps))"
    by (simp add: sel reg')
  finally show ?case .
qed

lemma register_uniqueToolNames:
  assumes u: "uniqueToolNames reg" and d: "distinct (map toolName (tools descriptor))"
    and r: "register descriptor reg = (None, reg')"
  shows "uniqueToolNames reg'"
proof -
  from r have reg': "reg' = reg\<lparr>agents := agents reg @ [descriptor]\<rparr>"
    and fresh: "\<not> list_ex (\<lambda>t. toolName t \<in> set (map toolName (registeredTools reg))) (tools descriptor)"
    by (auto simp: register_def split: if_splits)
  have "registeredTools reg' = registeredTools reg @ tools descriptor"
    by (simp add: reg' registeredTools_def)
  moreover from fresh have
    "toolName ` set (registeredTools reg) \<inter> toolName ` set (tools descriptor) = {}"
    by (auto simp: list_ex_iff image_iff) metis+
  ultimately show ?thesis
    using u d by (simp add: uniqueToolNames_def)
qed

lemma emptyRegistry_uniqueToolNames: "uniqueToolNames emptyRegistry"
  by (simp add: uniqueToolNames_def registeredTools_def emptyRegistry_def)

text \<open>
  Claim C4. For a capability with M providers, N successive calls of \<open>invokeCapability\<close>
  select the providers round-robin from the cursor of the capability, which is kept
  across the calls and which calls for other capabilities do not move: the call number
  \<open>n\<close> selects the provider at position \<open>(cursor + n) mod M\<close>, each provider is selected at least
  \<open>N div M\<close> times (at least once when \<open>M \<le> N\<close>), and the numbers of visits of two
  providers differ by at most one. In a registry that keeps the invariant of unique tool
  names, each call runs the provider it selected: its result is what the schema and the
  handler of that tool give on the parameters of the call. For a capability whose
  discovery set is empty, \<open>invokeCapability\<close> fails with \<open>NoProviderError\<close> and leaves the
  registry as it was.
\<close>

theorem invokeCapability_round_robin:
  "(discoverTools capability reg = [] \<longrightarrow>
      invokeCapability capability params reg = (Inl NoProviderError, reg)) \<and>
   (c \<noteq> capability \<longrightarrow>
      cursors (snd (invokeCapability capability params reg)) c = cursors reg c) \<and>
   agents (snd (invokeCapability capability params reg)) = agents reg \<and>
   (uniqueToolNames reg \<and> discoverTools capability reg \<noteq> [] \<longrightarrow>
      fst (invokeCapability capability params reg) =
        runTool (discoverTools capability reg !
                   (cursors reg capability mod length (discoverTools capability reg))) params \<and>
      fst (invokeAll capability ps reg) =
        map (\<lambda>(i, p). runTool (discoverTools capability reg ! i) p)
          (zip (visits capability ps reg) ps)) \<and>
   (j < length (discoverTools capability reg) \<and> k < length (discoverTools capability reg) \<longrightarrow>
      visits capability ps reg =
        map (\<lambda>n. (cursors reg capability + n) mod length (discoverTools capability reg))
          [0 ..< length ps] \<and>
      length (visits capability ps reg) = length ps \<and>
      set (visits capability ps reg) \<subseteq> {..< length (discoverTools capability reg)} \<and>
      length ps div length (discoverTools capability reg) \<le> count_list (visits capability ps reg) j \<and>
      count_list (visits capability ps reg) j \<le> count_list (visits capability ps reg) k + 1)"
proof (intro conjI impI)
  assume "discoverTools capability reg = []"
  then show "invokeCapability capability params reg = (Inl NoProviderError, reg)"
    by (simp add: invokeCapability_def selectProvider_def)
next
  assume "c \<noteq> capability"
  then show "cursors (snd (invokeCapability capability params reg)) c = cursors reg c"
    by (simp add: invokeCapability_registry selectProvider_def Let_def)
next
  show "agents (snd (invokeCapability capability params reg)) = agents reg"
    by (simp add: invokeCapability_registry selectProvider_agents)
next
  assume a: "uniqueToolNames reg \<and> discoverTools capability reg \<noteq> []"
  then show "fst (invokeCapability capability params reg) =
        runTool (discoverTools capability reg !
                   (cursors reg capability mod length (discoverTools capability reg))) params"
    by (simp add: invokeCapability_runs_selected)
  from a show "fst (invokeAll capability ps reg) =
        map (\<lambda>(i, p). runTool (discoverTools capability reg ! i) p)
          (zip (visits capability ps reg) ps)"
    by (simp add: invokeAll_runs_visited)
next
  let ?m = "length (discoverTools capability reg)"
  assume jk: "j < ?m \<and> k < ?m"
  then have ne: "discoverTools capability reg \<noteq> []" by auto
  note v = visits_round_robin [OF ne, of ps]
  show "visits capability ps reg =
        map (\<lambda>n. (cursors reg capability + n) mod ?m) [0 ..< length ps]"
    by (rule v)
  show "length (visits capability ps reg) = length ps" by (simp add: v)
  from jk have pos: "0 < ?m" by linarith
  show "set (visits capability ps reg) \<subseteq> {..< ?m}"
    unfolding v using mod_less_divisor [OF pos] by auto
  from jk have j: "j < ?m" and k: "k < ?m" by simp_all
  show "length ps div ?m \<le> count_list (visits capability ps reg) j"
    unfolding v by (rule count_round_robin_bounds(1) [OF j])
  have "count_list (visits capability ps reg) j \<le> length ps div ?m + 1"
    unfolding v by (rule count_round_robin_bounds(2) [OF j])
  moreover have "length ps div ?m \<le> count_list (visits capability ps reg) k"
    unfolding v by (rule count_round_robin_bounds(1) [OF k])
  ultimately show "count_list (visits capability ps reg) j \<le> count_list (visits capability ps reg) k + 1"
    by linarith
qed

lemmas registry_defs = discoverTools_def registeredTools_def selectProvider_def
  invokeCapability_def exampleRegistry_def exampleAgent_def

theorem invokeCapability_round_robin_witness:
  "discoverTools DataQuality exampleRegistry = [] \<and>
   invokeCapability DataQuality () exampleRegistry = (Inl NoProviderError, exampleRegistry) \<and>
   register exampleAgent emptyRegistry = (None, exampleRegistry) \<and>
   uniqueToolNames exampleRegistry \<and>
   length (discoverTools SchemaAnalysis exampleRegistry) = 2 \<and>
   visits SchemaAnalysis [(), (), ()] exampleRegistry = [0, 1, 0] \<and>
   fst (invokeAll SchemaAnalysis [(), (), ()] exampleRegistry) = [Inr 1, Inr 2, Inr 1] \<and>
   count_list (visits SchemaAnalysis [(), (), ()] exampleRegistry) 0 \<le>
     count_list (visits SchemaAnalysis [(), (), ()] exampleRegistry) 1 + 1"
proof -
  have e: "discoverTools DataQuality exampleRegistry = []"
    by (simp add: registry_defs)
  have r: "register exampleAgent emptyRegistry = (None, exampleRegistry)"
    by (simp add: register_def emptyRegistry_def exampleRegistry_def registeredTools_def list_ex_iff)
  have "distinct (map toolName (tools exampleAgent))" by (simp add: exampleAgent_def)
  with emptyRegistry_uniqueToolNames have u: "uniqueToolNames exampleRegistry"
    using r by (rule register_uniqueToolNames)
  have ts: "discoverTools SchemaAnalysis exampleRegistry = tools exampleAgent"
    by (simp add: registry_defs)
  then have m: "length (discoverTools SchemaAnalysis exampleRegistry) = 2"
    by (simp add: exampleAgent_def)
  have v: "visits SchemaAnalysis [(), (), ()] exampleRegistry = [0, 1, 0]"
    by (simp add: registry_defs Let_def)
  from m have ne: "discoverTools SchemaAnalysis exampleRegistry \<noteq> []" by auto
  from m have jk: "0 < length (discoverTools SchemaAnalysis exampleRegistry) \<and>
                   1 < length (discoverTools SchemaAnalysis exampleRegistry)" by simp
  note t = invokeCapability_round_robin [of SchemaAnalysis exampleRegistry "()" _ "[(), (), ()]" 0 1]
  from invokeCapability_round_robin [of DataQuality exampleRegistry "()" _ "[(), (), ()]" 0 1] e
  have a: "invokeCapability DataQuality () exampleRegistry = (Inl NoProviderError, exampleRegistry)"
    by blast
  from t jk
  have b: "count_list (visits SchemaAnalysis [(), (), ()] exampleRegistry) 0 \<le>
     count_list (visits SchemaAnalysis [(), (), ()] exampleRegistry) 1 + 1"
    by blast
  from t u ne
  have "fst (invokeAll SchemaAnalysis [(), (), ()] exampleRegistry) =
        map (\<lambda>(i, p). runTool (discoverTools SchemaAnalysis exampleRegistry ! i) p)
          (zip (visits SchemaAnalysis [(), (), ()] exampleRegistry) [(), (), ()])"
    by blast
  then have c: "fst (invokeAll SchemaAnalysis [(), (), ()] exampleRegistry) = [Inr 1, Inr 2, Inr 1]"
    unfolding v ts by (simp add: exampleAgent_def runTool_def)
  from e a r u m v c b show ?thesis by blast
qed

text \<open>
  Claim C6. For every registry and capability, \<open>discoverAgents\<close> returns exactly the
  registered agents that claim the capability, in insertion order: a successful
  registration appends the new agent to the discovery of each capability it claims and
  changes nothing else, and a deregistration removes that agent only. \<open>register\<close> with an
  agent id that is already present fails with \<open>DuplicateAgentError\<close>, and with a new id but a
  tool name that is already registered with \<open>DuplicateToolError\<close>; in both cases the registry
  is unchanged.
\<close>

theorem registry_discovery_and_duplicates:
  "set (discoverAgents capability reg) = {a \<in> set (agents reg). capability \<in> capabilities a} \<and>
   (register descriptor reg = (None, reg') \<longrightarrow>
      discoverAgents capability reg' =
        discoverAgents capability reg @ (if capability \<in> capabilities descriptor then [descriptor] else [])) \<and>
   discoverAgents capability (deregister ident reg) =
     filter (\<lambda>a. agentId a \<noteq> ident) (discoverAgents capability reg) \<and>
   (agentId descriptor \<in> set (map agentId (agents reg)) \<longrightarrow>
      register descriptor reg = (Some DuplicateAgentError, reg)) \<and>
   (agentId descriptor \<notin> set (map agentId (agents reg)) \<and>
    (\<exists>t \<in> set (tools descriptor). toolName t \<in> set (map toolName (registeredTools reg))) \<longrightarrow>
      register descriptor reg = (Some DuplicateToolError, reg))"
proof (intro conjI impI)
  show "set (discoverAgents capability reg) = {a \<in> set (agents reg). capability \<in> capabilities a}"
    by (simp add: discoverAgents_def)
  show "discoverAgents capability reg' =
        discoverAgents capability reg @ (if capability \<in> capabilities descriptor then [descriptor] else [])"
    if "register descriptor reg = (None, reg')"
    using that by (auto simp: register_def discoverAgents_def split: if_splits)
  show "discoverAgents capability (deregister ident reg) =
     filter (\<lambda>a. agentId a \<noteq> ident) (discoverAgents capability reg)"
    by (simp add: discoverAgents_def deregister_def conj_commute)
  show "register descriptor reg = (Some DuplicateAgentError, reg)"
    if "agentId descriptor \<in> set (map agentId (agents reg))"
    using that by (simp add: register_def)
  show "register descriptor reg = (Some DuplicateToolError, reg)"
    if "agentId descriptor \<notin> set (map agentId (agents reg)) \<and>
        (\<exists>t \<in> set (tools descriptor). toolName t \<in> set (map toolName (registeredTools reg)))"
    using that by (auto simp: register_def list_ex_iff)
qed

theorem registry_discovery_and_duplicates_witness:
  "agentId exampleAgent \<in> set (map agentId (agents exampleRegistry)) \<and>
   register exampleAgent exampleRegistry = (Some DuplicateAgentError, exampleRegistry) \<and>
   register exampleAgent emptyRegistry = (None, exampleRegistry) \<and>
   discoverAgents SchemaAnalysis exampleRegistry = [exampleAgent] \<and>
   discoverAgents DataQuality exampleRegistry = [] \<and>
   register (exampleAgent\<lparr>agentId := ''gemini_schema_2''\<rparr>) exampleRegistry =
     (Some DuplicateToolError, exampleRegistry)"
proof -
  have h: "agentId exampleAgent \<in> set (map agentId (agents exampleRegistry))"
    by (simp add: exampleRegistry_def)
  have r: "register exampleAgent emptyRegistry = (None, exampleRegistry)"
    by (simp add: register_def emptyRegistry_def exampleRegistry_def registeredTools_def list_ex_iff)
  have h2: "agentId (exampleAgent\<lparr>agentId := ''gemini_schema_2''\<rparr>) \<notin> set (map agentId (agents exampleRegistry)) \<and>
      (\<exists>t \<in> set (tools (exampleAgent\<lparr>agentId := ''gemini_schema_2''\<rparr>)).
          toolName t \<in> set (map toolName (registeredTools exampleRegistry)))"
    by (simp add: exampleRegistry_def exampleAgent_def registeredTools_def)
  note t1 = registry_discovery_and_duplicates
    [of SchemaAnalysis emptyRegistry exampleAgent exampleRegistry "[]"]
  note t2 = registry_discovery_and_duplicates
    [of DataQuality emptyRegistry exampleAgent exampleRegistry "[]"]
  note t3 = registry_discovery_and_duplicates
    [of SchemaAnalysis exampleRegistry exampleAgent exampleRegistry "[]"]
  note t4 = registry_discovery_and_duplicates
    [of SchemaAnalysis exampleRegistry "exampleAgent\<lparr>agentId := ''gemini_schema_2''\<rparr>" exampleRegistry "[]"]
  have e: "discoverAgents c emptyRegistry = []" for c :: Capability
    by (simp add: discoverAgents_def emptyRegistry_def)
  have c: "SchemaAnalysis \<in> capabilities exampleAgent" "DataQuality \<notin> capabilities exampleAgent"
    by (simp_all add: exampleAgent_def)
  from t1 r e c have d1: "discoverAgents SchemaAnalysis exampleRegistry = [exampleAgent]" by simp
  from t2 r e c have d2: "discoverAgents DataQuality exampleRegistry = []" by simp
  from t3 h have d3: "register exampleAgent exampleRegistry = (Some DuplicateAgentError, exampleRegistry)"
    by blast
  from t4 h2 have d4: "register (exampleAgent\<lparr>agentId := ''gemini_schema_2''\<rparr>) exampleRegistry =
     (Some DuplicateToolError, exampleRegistry)" by blast
  from h d3 r d1 d2 d4 show ?thesis by blast
qed


section \<open>Properties of the resource allocation policy\<close>

text \<open>
  Claim C3. The allocation is a function of row count and complexity. It gives (1, 1,
  small) for 5,000 rows of low complexity, (2, 3, medium) for 50,000 rows of medium
  complexity, (3, 7, x-large) for 500,000 rows of high complexity and (3, 10, x-large) for
  2,000,000 rows of any complexity; of two inputs of the table ordered by row count, the
  allocation of the larger is component-wise at least that of the smaller; and the number
  of merge agents never exceeds 10.
\<close>

theorem allocate_table:
  "allocate 5000 LowComplexity =
     Some \<lparr>schemaAgents = 1, mergeAgents = 1, warehouseTier = SmallTier\<rparr> \<and>
   allocate 50000 MediumComplexity =
     Some \<lparr>schemaAgents = 2, mergeAgents = 3, warehouseTier = MediumTier\<rparr> \<and>
   allocate 500000 HighComplexity =
     Some \<lparr>schemaAgents = 3, mergeAgents = 7, warehouseTier = XLargeTier\<rparr> \<and>
   allocate 2000000 complexity =
     Some \<lparr>schemaAgents = 3, mergeAgents = 10, warehouseTier = XLargeTier\<rparr> \<and>
   (r1 \<le> r2 \<and> allocate r1 c1 = Some d1 \<and> allocate r2 c2 = Some d2 \<longrightarrow> decisionLe d1 d2) \<and>
   (allocate r c = Some d \<longrightarrow> mergeAgents d \<le> 10)"
proof (intro conjI impI)
  show "decisionLe d1 d2" if "r1 \<le> r2 \<and> allocate r1 c1 = Some d1 \<and> allocate r2 c2 = Some d2"
    using that by (auto simp: allocate_def decisionLe_def split: if_splits)
  show "mergeAgents d \<le> 10" if "allocate r c = Some d"
    using that by (auto simp: allocate_def split: if_splits)
qed (simp_all add: allocate_def)

theorem allocate_table_witness:
  "(5000::nat) \<le> 50000 \<and>
   allocate 5000 LowComplexity =
     Some \<lparr>schemaAgents = 1, mergeAgents = 1, warehouseTier = SmallTier\<rparr> \<and>
   allocate 50000 MediumComplexity =
     Some \<lparr>schemaAgents = 2, mergeAgents = 3, warehouseTier = MediumTier\<rparr> \<and>
   decisionLe \<lparr>schemaAgents = 1, mergeAgents = 1, warehouseTier = SmallTier\<rparr>
     \<lparr>schemaAgents = 2, mergeAgents = 3, warehouseTier = MediumTier\<rparr> \<and>
   mergeAgents \<lparr>schemaAgents = 2, mergeAgents = 3, warehouseTier = MediumTier\<rparr> \<le> 10"
proof -
  note t = allocate_table [of LowComplexity 5000 50000 LowComplexity
      "\<lparr>schemaAgents = 1, mergeAgents = 1, warehouseTier = SmallTier\<rparr>" MediumComplexity
      "\<lparr>schemaAgents = 2, mergeAgents = 3, warehouseTier = MediumTier\<rparr>" 50000 MediumComplexity
      "\<lparr>schemaAgents = 2, mergeAgents = 3, warehouseTier = MediumTier\<rparr>"]
  have le: "(5000::nat) \<le> 50000" by simp
  from t le show ?thesis by blast
qed

end
